theory Spec2Isabelle
  imports Complex_Main "HOL-Library.Log_Nat"
begin

section \<open>Python values used by \<open>scripts/periphery/flashloan_zap.py\<close>\<close>

text \<open>
  Token amounts are Python integers (unbounded), modelled as \<open>int\<close>. The close-loan
  calculator also computes with Python floats: \<open>/\<close> between two integers is true
  division and yields a float, \<open>max_slippage\<close> is a float, and \<open>int(...)\<close> converts a
  float back. A float is an IEEE binary64 value; a finite one is modelled by the rational
  number it denotes, so that every rounding is explicit. The sign of a zero is not
  modelled (no operation below tells \<open>0.0\<close> from \<open>-0.0\<close>).

  Every \<open>raise\<close> of the source is a value \<open>Inl e\<close>; \<open>assert\<close> raises
  \<open>AssertionError\<close>, a failure reported by an external service is \<open>ExternalError\<close>.
\<close>

datatype error =
    AssertionError
  | ZeroDivisionError
  | OverflowError
  | ValueError
  | ExternalError string

datatype pyfloat = Finite rat | Infinite bool | NaN

text \<open>\<open>ilog2 x\<close> is the binary exponent of a positive rational: \<open>2^e \<le> x < 2^(e+1)\<close>.\<close>

definition ilog2 :: "rat \<Rightarrow> int" where
  "ilog2 x = (if 1 \<le> x then bitlen \<lfloor>x\<rfloor> - 1 else - bitlen (\<lceil>1 / x\<rceil> - 1))"

definition round_half_even :: "rat \<Rightarrow> int" where
  "round_half_even x =
     (let n = \<lfloor>x\<rfloor>; d = x - of_int n
      in if d < 1 / 2 then n else if 1 / 2 < d then n + 1 else if even n then n else n + 1)"

text \<open>
  Rounding of an exact result to binary64, to nearest with ties to even: 53 significant
  bits, the unit in the last place never below \<open>2^-1074\<close> (subnormal numbers), and
  infinity once the rounded magnitude reaches \<open>2^1024\<close>. The second argument of
  \<open>Infinite\<close> is the sign (True for negative).
\<close>

definition round_double :: "rat \<Rightarrow> pyfloat" where
  "round_double x =
     (if x = 0 then Finite 0
      else let a = \<bar>x\<bar>;
               q = max (ilog2 a - 52) (- 1074);
               v = of_int (round_half_even (a / 2 powi q)) * 2 powi q
           in if 2 ^ 1024 \<le> v then Infinite (x < 0) else Finite (sgn x * v))"

text \<open>
  \<open>a / b\<close> on two Python integers: the correctly rounded quotient, \<open>ZeroDivisionError\<close>
  for a zero divisor and \<open>OverflowError\<close> when the quotient is too large for a float.
\<close>

definition true_divide :: "int \<Rightarrow> int \<Rightarrow> error + pyfloat" where
  "true_divide a b =
     (if b = 0 then Inl ZeroDivisionError
      else (case round_double (of_int a / of_int b) of
              Finite v \<Rightarrow> Inr (Finite v)
            | Infinite s \<Rightarrow> Inl OverflowError
            | NaN \<Rightarrow> Inl OverflowError))"

fun float_add :: "pyfloat \<Rightarrow> pyfloat \<Rightarrow> pyfloat" where
  "float_add (Finite x) (Finite y) = round_double (x + y)"
| "float_add (Finite x) (Infinite t) = Infinite t"
| "float_add (Infinite s) (Finite y) = Infinite s"
| "float_add (Infinite s) (Infinite t) = (if s = t then Infinite s else NaN)"
| "float_add NaN y = NaN"
| "float_add x NaN = NaN"

fun float_mul :: "pyfloat \<Rightarrow> pyfloat \<Rightarrow> pyfloat" where
  "float_mul (Finite x) (Finite y) = round_double (x * y)"
| "float_mul (Finite x) (Infinite t) = (if x = 0 then NaN else Infinite (t \<noteq> (x < 0)))"
| "float_mul (Infinite s) (Finite y) = (if y = 0 then NaN else Infinite (s \<noteq> (y < 0)))"
| "float_mul (Infinite s) (Infinite t) = Infinite (s \<noteq> t)"
| "float_mul NaN y = NaN"
| "float_mul x NaN = NaN"

text \<open>\<open>int(x)\<close> on a float truncates toward zero and raises on infinities and NaN.\<close>

fun int_of_float :: "pyfloat \<Rightarrow> error + int" where
  "int_of_float (Finite v) = Inr (if 0 \<le> v then \<lfloor>v\<rfloor> else \<lceil>v\<rceil>)"
| "int_of_float (Infinite s) = Inl OverflowError"
| "int_of_float NaN = Inl ValueError"

section \<open>The external collaborators\<close>

type_synonym address = string

definition CONTROLLER :: address where
  "CONTROLLER = ''0x1337F001E280420EcCe9E7B934Fa07D67fdb62CD''"

definition MONEY :: address where
  "MONEY = ''0x69420f9e38a4e60a62224c489be4bf7a94402496''"

text \<open>
  Every request sent to the quote service is recorded, with its answer, in a trace.
  \<open>GetQuote\<close> carries the six arguments of \<open>odos.get_quote\<close> in the source's order:
  chain id, sender, input token, output token, input amount, maximal slippage.
\<close>

datatype call =
    GetQuote int address address address int pyfloat "error + int \<times> string"
  | GetRouteCalldata address string "error + string"

text \<open>
  The world a calculator runs in. The contract reads are view calls on one snapshot of
  the chain and are taken to succeed, hence pure functions; the first argument of
  \<open>balanceOf\<close> is the token, the first of \<open>user_state\<close>,
  \<open>pending_account_state_calculator\<close> and \<open>market_contracts\<close> the market, the first of
  \<open>get_sum_xy\<close> the AMM. The two requests of the quote service may fail and may answer
  differently each time: their answer depends on the trace of the requests made so far.
  \<open>to_int\<close> is the helper \<open>scripts.utils.float2int.to_int\<close>, whose source is not part of
  the file verified here; it is a parameter.
\<close>

record world =
  chain_id :: int
  get_collateral :: "address \<Rightarrow> address"
  balanceOf :: "address \<Rightarrow> address \<Rightarrow> int"
  get_close_loan_amounts :: "address \<Rightarrow> address \<Rightarrow> int \<times> int"
  get_oracle_price :: "address \<Rightarrow> int"
  decimals :: "address \<Rightarrow> int"
  user_state :: "address \<Rightarrow> address \<Rightarrow> int \<times> int \<times> int \<times> int"
  pending_account_state_calculator :: "address \<Rightarrow> address \<Rightarrow> int \<Rightarrow> int \<Rightarrow> int \<Rightarrow> int"
  market_contracts :: "address \<Rightarrow> address \<times> address \<times> address"
  get_sum_xy :: "address \<Rightarrow> address \<Rightarrow> int \<times> int"
  get_quote ::
    "call list \<Rightarrow> int \<Rightarrow> address \<Rightarrow> address \<Rightarrow> address \<Rightarrow> int \<Rightarrow> pyfloat \<Rightarrow> error + int \<times> string"
  get_route_calldata :: "call list \<Rightarrow> address \<Rightarrow> string \<Rightarrow> error + string"
  to_int :: "pyfloat \<Rightarrow> int \<Rightarrow> error + int"

definition odos_get_quote ::
  "world \<Rightarrow> call list \<Rightarrow> int \<Rightarrow> address \<Rightarrow> address \<Rightarrow> address \<Rightarrow> int \<Rightarrow> pyfloat
     \<Rightarrow> (error + int \<times> string) \<times> call list" where
  "odos_get_quote w tr chain sender tok_in tok_out amount slippage =
     (let r = get_quote w tr chain sender tok_in tok_out amount slippage
      in (r, tr @ [GetQuote chain sender tok_in tok_out amount slippage r]))"

definition odos_get_route_calldata ::
  "world \<Rightarrow> call list \<Rightarrow> address \<Rightarrow> string \<Rightarrow> (error + string) \<times> call list" where
  "odos_get_route_calldata w tr sender path_id =
     (let r = get_route_calldata w tr sender path_id
      in (r, tr @ [GetRouteCalldata sender path_id r]))"

fun is_quote :: "call \<Rightarrow> bool" where
  "is_quote (GetQuote c s i out a m r) = True"
| "is_quote (GetRouteCalldata s p r) = False"

section \<open>The single-quote calculators\<close>

text \<open>
  Each calculator returns its result, or the error it raised, together with the trace
  of the requests it sent. A failed request ends the calculator with the service's
  error, as the exception would.
  \<^verbatim>\<open>
  coll_in, path_id = odos.get_quote(chain.id, zap, MONEY, collateral, debt_amount, max_slippage)
  coll_existing = market.user_state(account)[0]
  total_coll = coll_existing + coll_amount + coll_in
  health = market.pending_account_state_calculator(account, coll_amount + coll_in, debt_amount, 0)
  return odos.get_route_calldata(zap, path_id), total_coll, health
  \<close>
\<close>

definition get_increase_loan_routing_data ::
  "world \<Rightarrow> address \<Rightarrow> address \<Rightarrow> address \<Rightarrow> int \<Rightarrow> int \<Rightarrow> pyfloat
     \<Rightarrow> (error + string \<times> int \<times> int) \<times> call list" where
  "get_increase_loan_routing_data w zap account market coll_amount debt_amount max_slippage =
     (let collateral = get_collateral w market;
          (q, tr) = odos_get_quote w [] (chain_id w) zap MONEY collateral debt_amount max_slippage
      in (case q of
           Inl e \<Rightarrow> (Inl e, tr)
         | Inr (coll_in, path_id) \<Rightarrow>
            (let coll_existing = fst (user_state w market account);
                 total_coll = coll_existing + coll_amount + coll_in;
                 health = pending_account_state_calculator w market account
                            (coll_amount + coll_in) debt_amount 0;
                 (c, tr') = odos_get_route_calldata w tr zap path_id
             in (case c of
                   Inl e \<Rightarrow> (Inl e, tr')
                 | Inr routing_data \<Rightarrow> (Inr (routing_data, total_coll, health), tr')))))"

text \<open>
  \<^verbatim>\<open>
  debt_in, path_id = odos.get_quote(chain.id, zap, collateral, MONEY, coll_amount, max_slippage)
  health = market.pending_account_state_calculator(account, -coll_amount, -debt_in, 0)
  return odos.get_route_calldata(zap, path_id), debt_in, health
  \<close>
\<close>

definition get_decrease_loan_routing_data ::
  "world \<Rightarrow> address \<Rightarrow> address \<Rightarrow> address \<Rightarrow> int \<Rightarrow> pyfloat
     \<Rightarrow> (error + string \<times> int \<times> int) \<times> call list" where
  "get_decrease_loan_routing_data w zap account market coll_amount max_slippage =
     (let collateral = get_collateral w market;
          (q, tr) = odos_get_quote w [] (chain_id w) zap collateral MONEY coll_amount max_slippage
      in (case q of
           Inl e \<Rightarrow> (Inl e, tr)
         | Inr (debt_in, path_id) \<Rightarrow>
            (let health = pending_account_state_calculator w market account
                            (- coll_amount) (- debt_in) 0;
                 (c, tr') = odos_get_route_calldata w tr zap path_id
             in (case c of
                   Inl e \<Rightarrow> (Inl e, tr')
                 | Inr routing_data \<Rightarrow> (Inr (routing_data, debt_in, health), tr')))))"

text \<open>
  \<open>controller.market_contracts(market)[:-1]\<close> drops the last of three components and
  unpacks the other two.
  \<^verbatim>\<open>
  collateral, amm = controller.market_contracts(market)[:-1]
  debt_amm, coll_amm = Contract(amm).get_sum_xy(account)
  assert debt_amm > 0
  received, path_id = odos.get_quote(chain.id, zap, MONEY, collateral, debt_amm, max_slippage)
  return odos.get_route_calldata(zap, path_id), coll_amount + coll_amm + received
  \<close>
\<close>

definition get_coll_converted_close_and_create_routing_data ::
  "world \<Rightarrow> address \<Rightarrow> address \<Rightarrow> address \<Rightarrow> int \<Rightarrow> pyfloat
     \<Rightarrow> (error + string \<times> int) \<times> call list" where
  "get_coll_converted_close_and_create_routing_data w zap account market coll_amount max_slippage =
     (let (collateral, amm, rest) = market_contracts w market;
          (debt_amm, coll_amm) = get_sum_xy w amm account
      in if \<not> debt_amm > 0 then (Inl AssertionError, [])
         else
          (let (q, tr) = odos_get_quote w [] (chain_id w) zap MONEY collateral debt_amm max_slippage
           in (case q of
                 Inl e \<Rightarrow> (Inl e, tr)
               | Inr (received, path_id) \<Rightarrow>
                  (let (c, tr') = odos_get_route_calldata w tr zap path_id
                   in (case c of
                         Inl e \<Rightarrow> (Inl e, tr')
                       | Inr routing_data \<Rightarrow>
                           (Inr (routing_data, coll_amount + coll_amm + received), tr'))))))"

section \<open>The close-loan calculator\<close>

text \<open>
  The rescaling step of the loop, \<open>int(amount_in * debt_shortfall / amount_out)\<close>: the
  product of two integers is exact, \<open>/\<close> is true division and \<open>int\<close> truncates.
\<close>

definition rescale :: "int \<Rightarrow> int \<Rightarrow> int \<Rightarrow> error + int" where
  "rescale amount_in debt_shortfall amount_out =
     (case true_divide (amount_in * debt_shortfall) amount_out of
        Inl e \<Rightarrow> Inl e
      | Inr x \<Rightarrow> int_of_float x)"

text \<open>
  The \<open>while\<close> loop. It has no bound in the source, so it is a partial function:
  \<open>None\<close> is a run that never leaves the loop. The loop state is the source's
  \<open>amount_in\<close>, \<open>amount_out\<close>, \<open>path_id\<close> and the trace.
\<close>

partial_function (option) quote_loop ::
  "world \<Rightarrow> address \<Rightarrow> address \<Rightarrow> pyfloat \<Rightarrow> int \<Rightarrow> call list \<Rightarrow> int \<Rightarrow> int \<Rightarrow> string
     \<Rightarrow> ((error + string \<times> int \<times> int) \<times> call list) option" where
  "quote_loop w zap collateral max_slippage debt_shortfall tr amount_in amount_out path_id =
     (if amount_out < debt_shortfall then
        (case rescale amount_in debt_shortfall amount_out of
           Inl e \<Rightarrow> Some (Inl e, tr)
         | Inr amount_in' \<Rightarrow>
            (case odos_get_quote w tr (chain_id w) zap collateral MONEY amount_in' max_slippage of
               (Inl e, tr') \<Rightarrow> Some (Inl e, tr')
             | (Inr (amount_out', path_id'), tr') \<Rightarrow>
                 quote_loop w zap collateral max_slippage debt_shortfall tr'
                   amount_in' amount_out' path_id'))
      else Some (Inr (path_id, amount_in, amount_out), tr))"

text \<open>
  \<^verbatim>\<open>
  amount = Contract(MONEY).balanceOf(account) if use_account_balance else 0
  (debt_amm, coll_amm) = controller.get_close_loan_amounts(account, market)
  debt_shortfall = -(amount + debt_amm)
  assert debt_amm < 0
  assert coll_amm > 0
  assert debt_shortfall > 0
  amount_in = debt_shortfall / controller.get_oracle_price(collateral) * (1 + max_slippage)
  amount_in = to_int(amount_in, collateral.decimals())
  amount_out, path_id = odos.get_quote(chain.id, zap, collateral, MONEY, amount_in, max_slippage)
  while amount_out < debt_shortfall:
      amount_in = int(amount_in * debt_shortfall / amount_out)
      amount_out, path_id = odos.get_quote(chain.id, zap, collateral, MONEY, amount_in, max_slippage)
  return odos.get_route_calldata(zap, path_id), amount_in, amount_out
  \<close>
\<close>

definition get_close_loan_routing_data ::
  "world \<Rightarrow> address \<Rightarrow> address \<Rightarrow> address \<Rightarrow> bool \<Rightarrow> pyfloat
     \<Rightarrow> ((error + string \<times> int \<times> int) \<times> call list) option" where
  "get_close_loan_routing_data w zap account market use_account_balance max_slippage =
     (let collateral = get_collateral w market;
          amount = (if use_account_balance then balanceOf w MONEY account else 0);
          (debt_amm, coll_amm) = get_close_loan_amounts w account market;
          debt_shortfall = - (amount + debt_amm)
      in if \<not> debt_amm < 0 then Some (Inl AssertionError, [])
         else if \<not> coll_amm > 0 then Some (Inl AssertionError, [])
         else if \<not> debt_shortfall > 0 then Some (Inl AssertionError, [])
         else
          (case true_divide debt_shortfall (get_oracle_price w collateral) of
             Inl e \<Rightarrow> Some (Inl e, [])
           | Inr x \<Rightarrow>
              (case to_int w (float_mul x (float_add (Finite 1) max_slippage))
                      (decimals w collateral) of
                 Inl e \<Rightarrow> Some (Inl e, [])
               | Inr amount_in \<Rightarrow>
                  (case odos_get_quote w [] (chain_id w) zap collateral MONEY amount_in
                          max_slippage of
                     (Inl e, tr) \<Rightarrow> Some (Inl e, tr)
                   | (Inr (amount_out, path_id), tr) \<Rightarrow>
                      (case quote_loop w zap collateral max_slippage debt_shortfall tr
                              amount_in amount_out path_id of
                         None \<Rightarrow> None
                       | Some (Inl e, tr') \<Rightarrow> Some (Inl e, tr')
                       | Some (Inr (path_id', amount_in', amount_out'), tr') \<Rightarrow>
                          (case odos_get_route_calldata w tr' zap path_id' of
                             (Inl e, tr'') \<Rightarrow> Some (Inl e, tr'')
                           | (Inr routing_data, tr'') \<Rightarrow>
                               Some (Inr (routing_data, amount_in', amount_out'), tr'')))))))"

text \<open>
  The calculator up to and including its first quote request, that is the source up to
  the line before the \<open>while\<close>: it always returns, with the state the loop starts
  from (\<open>debt_shortfall\<close>, \<open>amount_in\<close>, \<open>amount_out\<close>, \<open>path_id\<close>) or the error
  raised, and the trace so far.
\<close>

definition close_loan_first_quote ::
  "world \<Rightarrow> address \<Rightarrow> address \<Rightarrow> address \<Rightarrow> bool \<Rightarrow> pyfloat
     \<Rightarrow> (error + int \<times> int \<times> int \<times> string) \<times> call list" where
  "close_loan_first_quote w zap account market use_account_balance max_slippage =
     (let collateral = get_collateral w market;
          amount = (if use_account_balance then balanceOf w MONEY account else 0);
          (debt_amm, coll_amm) = get_close_loan_amounts w account market;
          debt_shortfall = - (amount + debt_amm)
      in if \<not> debt_amm < 0 then (Inl AssertionError, [])
         else if \<not> coll_amm > 0 then (Inl AssertionError, [])
         else if \<not> debt_shortfall > 0 then (Inl AssertionError, [])
         else
          (case true_divide debt_shortfall (get_oracle_price w collateral) of
             Inl e \<Rightarrow> (Inl e, [])
           | Inr x \<Rightarrow>
              (case to_int w (float_mul x (float_add (Finite 1) max_slippage))
                      (decimals w collateral) of
                 Inl e \<Rightarrow> (Inl e, [])
               | Inr amount_in \<Rightarrow>
                  (case odos_get_quote w [] (chain_id w) zap collateral MONEY amount_in
                          max_slippage of
                     (Inl e, tr) \<Rightarrow> (Inl e, tr)
                   | (Inr (amount_out, path_id), tr) \<Rightarrow>
                       (Inr (debt_shortfall, amount_in, amount_out, path_id), tr)))))"

section \<open>Definitions for the statements\<close>

text \<open>
  Modelled from the spec: the helper \<open>scripts.utils.float2int.to_int\<close> is not among
  the sources; the specification calls it \<open>ceil_to_token_precision\<close>, rounding a float
  amount up into the fixed-point precision of a token with the given number of decimals.
  A float that is not finite has no integer value.
\<close>

fun ceil_to_token_precision :: "pyfloat \<Rightarrow> int \<Rightarrow> error + int" where
  "ceil_to_token_precision (Finite x) d = Inr \<lceil>x * 10 powi d\<rceil>"
| "ceil_to_token_precision (Infinite s) d = Inl OverflowError"
| "ceil_to_token_precision NaN d = Inl ValueError"

text \<open>An integer is exactly representable when converting it to a float loses nothing.\<close>

definition exactly_representable :: "int \<Rightarrow> bool" where
  "exactly_representable a \<longleftrightarrow> round_double (of_int a) = Finite (of_int a)"

text \<open>
  From the specification's words, not from the source: the rounding variant that the
  rescaling step is contrasted with, the quotient rounded to the nearest integer
  (halves upward) instead of truncated.
\<close>

definition rescale_rounded :: "int \<Rightarrow> int \<Rightarrow> int \<Rightarrow> int" where
  "rescale_rounded amount_in debt_shortfall amount_out =
     (2 * (amount_in * debt_shortfall) + amount_out) div (2 * amount_out)"

text \<open>
  A fixed snapshot with a stateless quote service, for concrete runs: the loan amounts
  read from the controller or the AMM, the account's stable-token balance, the oracle
  price, the decimals of every token and the quote function \<open>f\<close> from input amount
  to output amount are given; the existing collateral is 5000.
\<close>

definition stub_world ::
  "int \<times> int \<Rightarrow> int \<Rightarrow> int \<Rightarrow> int \<Rightarrow> (int \<Rightarrow> int) \<Rightarrow> world" where
  "stub_world amounts balance price dec f =
     \<lparr> chain_id = 1,
       get_collateral = (\<lambda>market. ''collateral''),
       balanceOf = (\<lambda>token account. balance),
       get_close_loan_amounts = (\<lambda>account market. amounts),
       get_oracle_price = (\<lambda>token. price),
       decimals = (\<lambda>token. dec),
       user_state = (\<lambda>market account. (5000, 0, 0, 0)),
       pending_account_state_calculator = (\<lambda>market account coll debt n. coll - debt),
       market_contracts = (\<lambda>market. (''collateral'', ''amm'', ''oracle'')),
       get_sum_xy = (\<lambda>amm account. amounts),
       get_quote = (\<lambda>tr chain sender tok_in tok_out amount slippage. Inr (f amount, ''path'')),
       get_route_calldata = (\<lambda>tr sender path_id. Inr (''calldata:'' @ path_id)),
       to_int = ceil_to_token_precision \<rparr>"

section \<open>Binary exponents and rounding\<close>

lemma ilog2_bounds:
  assumes "0 < x"
  shows "2 powi (ilog2 x) \<le> x \<and> x < 2 powi (ilog2 x + 1)"
proof (cases "1 \<le> x")
  case True
  define n where "n = \<lfloor>x\<rfloor>"
  have n1: "1 \<le> n" using True by (simp add: n_def)
  then have npos: "0 < n" by simp
  have bl: "1 \<le> bitlen n" using npos by (simp add: bitlen_alt_def)
  from bitlen_bounds[OF npos]
  have lo: "(2::int) ^ nat (bitlen n - 1) \<le> n" and hi: "n < (2::int) ^ nat (bitlen n)" by auto
  have e: "ilog2 x = bitlen n - 1" using True by (simp add: ilog2_def n_def)
  have "(2::rat) powi (bitlen n - 1) = of_int ((2::int) ^ nat (bitlen n - 1))"
    using bl by (simp add: power_int_def)
  also have "\<dots> \<le> of_int n" using lo by (simp only: of_int_le_iff)
  also have "\<dots> \<le> x" by (simp add: n_def)
  finally have A: "2 powi (ilog2 x) \<le> x" by (simp add: e)
  have "x < of_int (n + 1)" unfolding n_def by linarith
  also have "\<dots> \<le> of_int ((2::int) ^ nat (bitlen n))" using hi by (simp only: of_int_le_iff)
  also have "\<dots> = (2::rat) powi (bitlen n)" using bl by (simp add: power_int_def)
  finally have B: "x < 2 powi (ilog2 x + 1)" by (simp add: e)
  from A B show ?thesis by simp
next
  case False
  then have x1: "x < 1" by simp
  define c where "c = \<lceil>1 / x\<rceil>"
  have y1: "1 < 1 / x" using assms x1 by simp
  then have c2: "2 \<le> c" unfolding c_def by linarith
  then have cpos: "0 < c - 1" by simp
  define k where "k = bitlen (c - 1)"
  have k1: "1 \<le> k" using cpos by (simp add: bitlen_alt_def k_def)
  from bitlen_bounds[OF cpos]
  have lo: "(2::int) ^ nat (k - 1) \<le> c - 1" and hi: "c - 1 < (2::int) ^ nat k"
    by (auto simp: k_def)
  have e: "ilog2 x = - k" using False by (simp add: ilog2_def c_def k_def)
  have "1 / x \<le> of_int c" by (simp add: c_def)
  also have "of_int c \<le> (of_int ((2::int) ^ nat k) :: rat)" using hi by (simp only: of_int_le_iff)
  finally have "1 / x \<le> 2 ^ nat k" by simp
  then have "1 \<le> 2 ^ nat k * x" using assms by (simp add: field_simps)
  then have "1 / 2 ^ nat k \<le> x" by (simp add: field_simps)
  moreover have "(2::rat) powi (- k) = 1 / 2 ^ nat k" using k1 by (simp add: power_int_def field_simps)
  ultimately have A: "2 powi (ilog2 x) \<le> x" by (simp add: e)
  have "(of_int ((2::int) ^ nat (k - 1)) :: rat) \<le> of_int (c - 1)" using lo by (simp only: of_int_le_iff)
  also have "(of_int (c - 1) :: rat) < 1 / x" unfolding c_def by linarith
  finally have "2 ^ nat (k - 1) < 1 / x" by simp
  then have "x * 2 ^ nat (k - 1) < 1" using assms by (simp add: field_simps)
  then have "x < 1 / 2 ^ nat (k - 1)" by (simp add: field_simps)
  moreover have "(2::rat) powi (- k + 1) = 1 / 2 ^ nat (k - 1)"
    using k1 by (auto simp: power_int_def field_simps nat_diff_distrib)
  ultimately have B: "x < 2 powi (ilog2 x + 1)" by (simp add: e)
  from A B show ?thesis by simp
qed

lemma pow2_less_iff: "(2::rat) powi a < 2 powi b \<longleftrightarrow> a < b"
proof
  assume L: "(2::rat) powi a < 2 powi b"
  show "a < b"
  proof (rule ccontr)
    assume "\<not> a < b"
    then have "b \<le> a" by simp
    then have "(2::rat) powi b \<le> 2 powi a" by (rule power_int_increasing) simp
    with L show False by simp
  qed
next
  assume "a < b"
  then show "(2::rat) powi a < 2 powi b" by (rule power_int_strict_increasing) simp
qed

lemma pow2_le_iff: "(2::rat) powi a \<le> 2 powi b \<longleftrightarrow> a \<le> b"
  using pow2_less_iff[of b a] by (auto simp: not_less[symmetric])

lemma ilog2_unique:
  assumes "2 powi e \<le> x" and "x < 2 powi (e + 1)"
  shows "ilog2 x = e"
proof -
  have "0 < (2::rat) powi e" by simp
  then have xpos: "0 < x" using assms(1) by linarith
  from ilog2_bounds[OF xpos]
  have A: "2 powi (ilog2 x) \<le> x" and B: "x < 2 powi (ilog2 x + 1)" by auto
  have "(2::rat) powi e < 2 powi (ilog2 x + 1)" using assms(1) B by linarith
  then have "e < ilog2 x + 1" by (simp add: pow2_less_iff)
  moreover have "(2::rat) powi (ilog2 x) < 2 powi (e + 1)" using assms(2) A by linarith
  then have "ilog2 x < e + 1" by (simp add: pow2_less_iff)
  ultimately show ?thesis by simp
qed

lemma round_half_even_bounds:
  "x - 1 / 2 \<le> of_int (round_half_even x) \<and> of_int (round_half_even x) \<le> x + 1 / 2"
proof -
  have "of_int \<lfloor>x\<rfloor> \<le> x" "x < of_int \<lfloor>x\<rfloor> + 1" by linarith+
  then show ?thesis
    unfolding round_half_even_def Let_def by (auto; linarith)
qed

lemma round_half_even_of_int [simp]: "round_half_even (of_int n) = n"
  by (simp add: round_half_even_def)

lemma round_half_even_numeral [simp]: "round_half_even (numeral k) = numeral k"
  using round_half_even_of_int[of "numeral k"] by simp

lemma round_half_even_ge:
  assumes "of_int n \<le> x" shows "n \<le> round_half_even x"
proof -
  have "n \<le> \<lfloor>x\<rfloor>" using assms by (simp add: le_floor_iff)
  then show ?thesis unfolding round_half_even_def Let_def by auto
qed

lemma round_half_even_le:
  assumes "x \<le> of_int n" shows "round_half_even x \<le> n"
proof (cases "x = of_int n")
  case True then show ?thesis by simp
next
  case False
  then have "x < of_int n" using assms by simp
  then have "\<lfloor>x\<rfloor> < n" by (simp add: floor_less_iff)
  then show ?thesis unfolding round_half_even_def Let_def by auto
qed


lemma round_double_pos_eval:
  assumes "2 powi e \<le> x" and "x < 2 powi (e + 1)"
  shows "round_double x =
           (let q = max (e - 52) (- 1074);
                v = of_int (round_half_even (x / 2 powi q)) * 2 powi q
            in if 2 ^ 1024 \<le> v then Infinite False else Finite v)"
proof -
  have "0 < (2::rat) powi e" by simp
  then have xpos: "0 < x" using assms(1) by linarith
  have e: "ilog2 x = e" using assms by (rule ilog2_unique)
  show ?thesis using xpos by (simp add: round_double_def e Let_def)
qed

lemma true_divide_floor:
  assumes p0: "0 \<le> p" and p53: "p < 2 ^ 53" and c0: "0 < c"
  shows "\<exists>v. true_divide p c = Inr (Finite v) \<and> 0 \<le> v \<and> \<lfloor>v\<rfloor> = p div c"
proof (cases "p = 0")
  case True
  then show ?thesis using c0 by (simp add: true_divide_def round_double_def)
next
  case False
  with p0 have ppos: "0 < p" by simp
  define x :: rat where "x = of_int p / of_int c"
  define n where "n = p div c"
  have xpos: "0 < x" using ppos c0 by (simp add: x_def)
  have n_floor: "n = \<lfloor>x\<rfloor>" by (simp add: n_def x_def floor_divide_of_int_eq)
  have n0: "0 \<le> n" using p0 c0 by (simp add: n_def pos_imp_zdiv_nonneg_iff)
  have n_le: "of_int n \<le> x" by (simp add: n_floor)
  have gap: "x + 1 / of_int c \<le> of_int n + 1"
  proof -
    have "p mod c < c" using c0 by simp
    then have "p mod c + 1 \<le> c" by simp
    moreover have "p = n * c + p mod c" by (simp add: n_def)
    ultimately have "p + 1 \<le> (n + 1) * c" by (simp add: algebra_simps)
    then have "(of_int (p + 1) :: rat) \<le> of_int ((n + 1) * c)" by (simp only: of_int_le_iff)
    then have "(of_int p + 1 :: rat) \<le> (of_int n + 1) * of_int c" by simp
    then show ?thesis using c0 by (simp add: x_def field_simps)
  qed
  define e where "e = ilog2 x"
  from ilog2_bounds[OF xpos]
  have elo: "2 powi e \<le> x" and ehi: "x < 2 powi (e + 1)" by (simp_all add: e_def)
  have x_le_p: "x \<le> of_int p"
  proof -
    have "(1::rat) \<le> of_int c" using c0 by simp
    then have "(of_int p :: rat) * 1 \<le> of_int p * of_int c"
      using p0 by (intro mult_left_mono) simp_all
    then show ?thesis using c0 by (simp add: x_def field_simps)
  qed
  have "(2::rat) powi e < 2 powi 53"
  proof -
    have "(of_int p :: rat) < of_int (2 ^ 53)" using p53 by (simp only: of_int_less_iff)
    then have "x < 2 ^ 53" using x_le_p by simp
    then show ?thesis using elo by simp
  qed
  then have e53: "e < 53" by (simp only: pow2_less_iff)
  define q where "q = max (e - 52) (- 1074)"
  have q0: "q \<le> 0" using e53 by (simp add: q_def)
  define k where "k = nat (- q)"
  have pq: "(2::rat) powi q = 1 / 2 ^ k"
    using q0 by (auto simp: power_int_def k_def field_simps)
  define m where "m = round_half_even (x / 2 powi q)"
  have arg: "x / 2 powi q = x * 2 ^ k" by (simp add: pq)
  have "of_int (n * 2 ^ k) \<le> x * 2 ^ k" using n_le by simp
  then have m_lo: "n * 2 ^ k \<le> m" unfolding m_def arg by (rule round_half_even_ge)
  have m_hi: "of_int m \<le> x * 2 ^ k + 1 / 2"
    using round_half_even_bounds[of "x * 2 ^ k"] by (simp add: m_def arg)
  define v :: rat where "v = of_int m * 2 powi q"
  have v_eq: "v = of_int m / 2 ^ k" by (simp add: v_def pq)
  have v_lo: "of_int n \<le> v"
  proof -
    have "(of_int (n * 2 ^ k) :: rat) \<le> of_int m" using m_lo by (simp only: of_int_le_iff)
    then show ?thesis by (simp add: v_eq field_simps)
  qed
  have v_hi1: "v \<le> x + 1 / (2 * 2 ^ k)"
    using m_hi by (simp add: v_eq field_simps)
  have small: "1 / (2 * 2 ^ k) < 1 / (of_int c :: rat) \<or> x + 1 / (2 * 2 ^ k) < 1"
  proof (cases "- 1074 \<le> e - 52")
    case True
    then have qe: "q = e - 52" by (simp add: q_def)
    have "of_int c * 2 powi e \<le> (of_int p :: rat)"
      using elo c0 by (simp add: x_def field_simps)
    also have "(of_int p :: rat) < of_int (2 ^ 53)" using p53 by (simp only: of_int_less_iff)
    finally have "of_int c * 2 powi e < (2::rat) powi 53" by simp
    then have "of_int c < (2::rat) powi 53 / 2 powi e" by (simp add: field_simps)
    also have "(2::rat) powi 53 / 2 powi e = 2 * 2 ^ k"
    proof -
      have ex: "53 - e = - q + 1" using qe by simp
      have "(2::rat) powi 53 / 2 powi e = 2 powi (53 - e)" by (simp add: power_int_diff)
      also have "\<dots> = 2 powi (- q + 1)" by (simp only: ex)
      also have "\<dots> = 2 powi (- q) * 2" by (rule power_int_add_1) simp
      also have "(2::rat) powi (- q) = 2 ^ k" using q0 by (simp add: power_int_def k_def)
      finally show ?thesis by simp
    qed
    finally have "(of_int c :: rat) < 2 * 2 ^ k" .
    then show ?thesis using c0 by (simp add: field_simps)
  next
    case False
    then have qe: "q = - 1074" and e1: "e + 1 \<le> - 1022" by (simp_all add: q_def)
    have "x < 2 powi (- 1022)"
      using ehi power_int_increasing[OF e1, of "2::rat"] by simp
    moreover have "k = 1074" by (simp add: k_def qe)
    ultimately show ?thesis by (simp add: power_int_minus_divide)
  qed
  have v_hi: "v < of_int n + 1"
  proof -
    from small show ?thesis
    proof
      assume "1 / (2 * 2 ^ k) < 1 / (of_int c :: rat)"
      then show ?thesis using v_hi1 gap by linarith
    next
      assume "x + 1 / (2 * 2 ^ k) < 1"
      then show ?thesis using v_hi1 n0 by (simp add: less_le_trans)
    qed
  qed
  have fl: "\<lfloor>v\<rfloor> = n" using v_lo v_hi by (simp add: floor_unique)
  have v0: "0 \<le> v" using v_lo n0 by (simp add: order_trans[of 0 "of_int n" v])
  have "v < 2 ^ 1024"
  proof -
    have "(of_int n :: rat) \<le> of_int p" using n_le x_le_p by (rule order_trans)
    then have "n \<le> p" by (simp only: of_int_le_iff)
    then have "n + 1 \<le> 2 ^ 53" using p53 by simp
    then have "(of_int (n + 1) :: rat) \<le> of_int (2 ^ 53)" by (simp only: of_int_le_iff)
    then have "v < 2 ^ 53" using v_hi by simp
    moreover have "(2::rat) ^ 53 \<le> 2 ^ 1024" by (rule power_increasing) simp_all
    ultimately show ?thesis by linarith
  qed
  then have rd: "round_double x = Finite v"
    using round_double_pos_eval[OF elo ehi] by (simp add: Let_def q_def[symmetric] v_def m_def)
  have "true_divide p c = Inr (Finite v)"
    using c0 rd by (simp add: true_divide_def x_def[symmetric])
  then show ?thesis using v0 fl by (simp add: n_def)
qed

lemma floor_rat_numeral_div [simp]: "\<lfloor>numeral a / numeral b :: rat\<rfloor> = numeral a div numeral b"
  using floor_divide_of_int_eq[of "numeral a" "numeral b", where ?'a = rat] by simp

lemma ceiling_rat_numeral_div [simp]:
  "\<lceil>numeral a / numeral b :: rat\<rceil> = - ((- numeral a) div numeral b)"
  using floor_divide_of_int_eq[of "- numeral a" "numeral b", where ?'a = rat]
  by (simp add: ceiling_def)

lemma ceiling_rat_neg_numeral_div [simp]:
  "\<lceil>- (numeral a / numeral b) :: rat\<rceil> = - (numeral a div numeral b)"
  by (simp add: ceiling_def)

lemma ilog2_mono:
  assumes "0 < x" and "x \<le> y"
  shows "ilog2 x \<le> ilog2 y"
proof -
  have ypos: "0 < y" using assms by linarith
  from ilog2_bounds[OF assms(1)] have "2 powi (ilog2 x) \<le> x" by simp
  moreover from ilog2_bounds[OF ypos] have "y < 2 powi (ilog2 y + 1)" by simp
  ultimately have "(2::rat) powi (ilog2 x) < 2 powi (ilog2 y + 1)" using assms(2) by linarith
  then have "ilog2 x < ilog2 y + 1" by (simp only: pow2_less_iff)
  then show ?thesis by simp
qed

lemma ilog2_nonneg:
  assumes "1 \<le> x" shows "0 \<le> ilog2 x"
proof -
  have xpos: "0 < x" using assms by linarith
  from ilog2_bounds[OF xpos] have "x < 2 powi (ilog2 x + 1)" by simp
  then have "(2::rat) powi 0 < 2 powi (ilog2 x + 1)" using assms by simp
  then have "0 < ilog2 x + 1" by (simp only: pow2_less_iff)
  then show ?thesis by simp
qed

text \<open>For arguments from 1 on, rounding works on the scale \<open>2^(e-52)\<close>.\<close>

lemma round_double_ge1:
  assumes "1 \<le> x"
  shows "round_double x =
           (let v = of_int (round_half_even (x / 2 powi (ilog2 x - 52))) * 2 powi (ilog2 x - 52)
            in if 2 ^ 1024 \<le> v then Infinite False else Finite v)"
proof -
  have xpos: "0 < x" using assms by linarith
  have "max (ilog2 x - 52) (- 1074) = ilog2 x - 52" using ilog2_nonneg[OF assms] by simp
  then show ?thesis using xpos by (simp add: round_double_def Let_def)
qed

lemma round_double_lower:
  assumes n1: "1 \<le> n" and rep: "round_double (of_int n) = Finite (of_int n)"
    and le: "of_int n \<le> y"
  shows "round_double y = Infinite False \<or> (\<exists>v. round_double y = Finite v \<and> of_int n \<le> v)"
proof -
  define a :: rat where "a = of_int n"
  have a1: "1 \<le> a" using n1 by (simp add: a_def)
  have y1: "1 \<le> y" using a1 le by (simp add: a_def)
  have apos: "0 < a" and ypos: "0 < y" using a1 y1 by linarith+
  define ea where "ea = ilog2 a"
  define ey where "ey = ilog2 y"
  define ma where "ma = round_half_even (a / 2 powi (ea - 52))"
  define my where "my = round_half_even (y / 2 powi (ey - 52))"
  define vy :: rat where "vy = of_int my * 2 powi (ey - 52)"
  have e_le: "ea \<le> ey" unfolding ea_def ey_def using apos le by (intro ilog2_mono) (simp_all add: a_def)
  have rdy: "round_double y = (if 2 ^ 1024 \<le> vy then Infinite False else Finite vy)"
    using round_double_ge1[OF y1] by (simp add: Let_def vy_def my_def ey_def)
  have "round_double a = (if 2 ^ 1024 \<le> of_int ma * (2::rat) powi (ea - 52) then Infinite False
                          else Finite (of_int ma * 2 powi (ea - 52)))"
    using round_double_ge1[OF a1] by (simp add: Let_def ma_def ea_def)
  with rep have a_eq: "a = of_int ma * 2 powi (ea - 52)"
    by (simp add: a_def split: if_splits)
  have "a \<le> vy"
  proof (cases "ea = ey")
    case True
    have "of_int ma = a / 2 powi (ea - 52)" using a_eq by simp
    also have "\<dots> \<le> y / 2 powi (ey - 52)" using le True
      by (simp add: a_def divide_right_mono)
    finally have "ma \<le> my" unfolding my_def by (rule round_half_even_ge)
    then have "(of_int ma :: rat) \<le> of_int my" by (simp only: of_int_le_iff)
    then have "of_int ma * 2 powi (ea - 52) \<le> of_int my * (2::rat) powi (ea - 52)"
      by (rule mult_right_mono) simp
    then show ?thesis using a_eq True by (simp add: vy_def)
  next
    case False
    with e_le have lt: "ea + 1 \<le> ey" by simp
    from ilog2_bounds[OF ypos] have ylo: "2 powi ey \<le> y" by (simp add: ey_def)
    from ilog2_bounds[OF apos] have ahi: "a < 2 powi (ea + 1)" by (simp add: ea_def)
    have "(of_int (2 ^ 52) :: rat) = 2 powi ey / 2 powi (ey - 52)"
      by (simp add: power_int_diff)
    also have "\<dots> \<le> y / 2 powi (ey - 52)" using ylo by (simp add: divide_right_mono)
    finally have "2 ^ 52 \<le> my" unfolding my_def by (rule round_half_even_ge)
    then have "(of_int (2 ^ 52) :: rat) \<le> of_int my" by (simp only: of_int_le_iff)
    then have h1: "of_int (2 ^ 52) * 2 powi (ey - 52) \<le> of_int my * (2::rat) powi (ey - 52)"
      by (rule mult_right_mono) simp
    have h2: "(of_int (2 ^ 52) :: rat) * 2 powi (ey - 52) = 2 powi ey"
    proof -
      have "(2::rat) powi ey = 2 powi (52 + (ey - 52))" by simp
      also have "\<dots> = 2 powi 52 * 2 powi (ey - 52)" by (rule power_int_add) simp
      finally show ?thesis by simp
    qed
    from h1 have "2 powi ey \<le> vy" unfolding h2 vy_def .
    moreover have "(2::rat) powi (ea + 1) \<le> 2 powi ey" using lt by (simp only: pow2_le_iff)
    ultimately show ?thesis using ahi by linarith
  qed
  then show ?thesis using rdy by (simp add: a_def)
qed

lemma round_double_exact:
  fixes M :: int and j :: nat
  assumes M0: "0 < M" and M53: "M < 2 ^ 53" and x: "x = of_int M * 2 ^ j" and fin: "x < 2 ^ 1024"
  shows "round_double x = Finite x"
proof -
  have "(1::rat) \<le> of_int M" using M0 by simp
  moreover have "(1::rat) \<le> 2 ^ j" by simp
  ultimately have "(1::rat) * 1 \<le> of_int M * 2 ^ j" by (intro mult_mono) simp_all
  then have x1: "1 \<le> x" by (simp add: x)
  then have xpos: "0 < x" by linarith
  define e where "e = ilog2 x"
  from ilog2_bounds[OF xpos] have elo: "2 powi e \<le> x" by (simp add: e_def)
  have "(of_int M :: rat) < of_int (2 ^ 53)" using M53 by (simp only: of_int_less_iff)
  then have "(of_int M :: rat) * 2 ^ j < of_int (2 ^ 53) * 2 ^ j"
    by (rule mult_strict_right_mono) simp
  also have "(of_int (2 ^ 53) :: rat) * 2 ^ j = 2 powi (53 + int j)"
    by (simp add: power_int_add)
  finally have "x < 2 powi (53 + int j)" by (simp add: x)
  with elo have "(2::rat) powi e < 2 powi (53 + int j)" by linarith
  then have "e < 53 + int j" by (simp only: pow2_less_iff)
  then have dj: "0 \<le> int j - (e - 52)" by simp
  define d where "d = nat (int j - (e - 52))"
  have "x / 2 powi (e - 52) = of_int M * (2 powi (int j) / 2 powi (e - 52))"
    by (simp add: x)
  also have "(2::rat) powi (int j) / 2 powi (e - 52) = 2 powi (int j - (e - 52))"
    by (simp add: power_int_diff)
  also have "\<dots> = 2 ^ d" using dj by (simp add: power_int_def d_def)
  finally have arg: "x / 2 powi (e - 52) = of_int (M * 2 ^ d)" by simp
  have P0: "(2::rat) powi (e - 52) \<noteq> 0" by simp
  have "x = x / 2 powi (e - 52) * 2 powi (e - 52)" using P0 by simp
  then have xe: "x = of_int (M * 2 ^ d) * 2 powi (e - 52)" by (simp only: arg)
  have "of_int (round_half_even (x / 2 powi (e - 52))) * 2 powi (e - 52)
          = of_int (M * 2 ^ d) * (2::rat) powi (e - 52)"
    by (simp only: arg round_half_even_of_int)
  also have "\<dots> = x" by (rule xe[symmetric])
  finally have "of_int (round_half_even (x / 2 powi (e - 52))) * 2 powi (e - 52) = x" .
  then show ?thesis using round_double_ge1[OF x1] fin by (simp add: Let_def e_def)
qed

lemma floor_round_double_representable:
  assumes y1: "1 \<le> y" and rd: "round_double y = Finite v"
  shows "round_double (of_int \<lfloor>v\<rfloor>) = Finite (of_int \<lfloor>v\<rfloor>)"
proof -
  have ypos: "0 < y" using y1 by linarith
  define e where "e = ilog2 y"
  define q where "q = e - 52"
  define m where "m = round_half_even (y / 2 powi q)"
  from ilog2_bounds[OF ypos] have elo: "2 powi e \<le> y" and ehi: "y < 2 powi (e + 1)"
    by (simp_all add: e_def)
  have e0: "0 \<le> e" unfolding e_def using y1 by (rule ilog2_nonneg)
  from round_double_ge1[OF y1] rd
  have v: "v = of_int m * 2 powi q" and fin: "v < 2 ^ 1024"
    by (simp_all add: Let_def m_def q_def e_def split: if_splits)
  have "(of_int (2 ^ 52) :: rat) = 2 powi e / 2 powi q" by (simp add: q_def power_int_diff)
  also have "\<dots> \<le> y / 2 powi q" using elo by (simp add: divide_right_mono)
  finally have m_lo: "2 ^ 52 \<le> m" unfolding m_def by (rule round_half_even_ge)
  have "y / 2 powi q \<le> 2 powi (e + 1) / 2 powi q" using ehi by (simp add: divide_right_mono)
  also have "\<dots> = of_int (2 ^ 53)"
  proof -
    have ex: "e + 1 - q = 53" by (simp add: q_def)
    have "(2::rat) powi (e + 1) / 2 powi q = 2 powi (e + 1 - q)" by (simp add: power_int_diff)
    then have "(2::rat) powi (e + 1) / 2 powi q = 2 powi 53" by (simp only: ex)
    then show ?thesis by simp
  qed
  finally have m_hi: "m \<le> 2 ^ 53" unfolding m_def by (rule round_half_even_le)
  show ?thesis
  proof (cases "0 \<le> q")
    case True
    define j where "j = nat q"
    have pq: "(2::rat) powi q = 2 ^ j" using True by (simp add: power_int_def j_def)
    have vint: "v = of_int (m * 2 ^ j)" by (simp add: v pq)
    then have fl: "of_int \<lfloor>v\<rfloor> = v" by simp
    show ?thesis
    proof (cases "m = 2 ^ 53")
      case True
      have "v = of_int (2 ^ 52) * 2 ^ (Suc j)" by (simp add: v pq True)
      from round_double_exact[OF _ _ this fin] show ?thesis by (simp add: fl)
    next
      case False
      have "0 < m" using m_lo by simp
      moreover from False m_hi have "m < 2 ^ 53" by simp
      moreover have "v = of_int m * 2 ^ j" by (simp add: v pq)
      ultimately have "round_double v = Finite v" using fin by (rule round_double_exact)
      then show ?thesis by (simp add: fl)
    qed
  next
    case False
    define k where "k = nat (- q)"
    have k1: "1 \<le> k" using False by (simp add: k_def)
    have pq: "(2::rat) powi q = 1 / 2 ^ k" using False by (auto simp: power_int_def k_def field_simps)
    have vq: "v = of_int m / of_int (2 ^ k)" by (simp add: v pq)
    define N where "N = \<lfloor>v\<rfloor>"
    have "(1::rat) \<le> 2 powi e" using e0 by simp
    also have "(2::rat) powi e = of_int (2 ^ 52) * 2 powi q"
    proof -
      have "(2::rat) powi e = 2 powi (52 + q)" by (simp add: q_def)
      also have "\<dots> = 2 powi 52 * 2 powi q" by (rule power_int_add) simp
      finally show ?thesis by simp
    qed
    also have "\<dots> \<le> of_int m * 2 powi q"
    proof (rule mult_right_mono)
      show "(of_int (2 ^ 52) :: rat) \<le> of_int m" using m_lo by (simp only: of_int_le_iff)
    qed simp
    finally have "1 \<le> v" by (simp add: v)
    then have N1: "1 \<le> N" by (simp add: N_def le_floor_iff)
    have "(2::rat) ^ 1 \<le> 2 ^ k" using k1 by (intro power_increasing) simp_all
    then have "(2::rat) \<le> 2 ^ k" by simp
    have "of_int N \<le> v" by (simp add: N_def)
    also have "v \<le> of_int (2 ^ 53) / 2 ^ k"
    proof -
      have "(of_int m :: rat) \<le> of_int (2 ^ 53)" using m_hi by (simp only: of_int_le_iff)
      then show ?thesis by (simp add: vq divide_right_mono)
    qed
    also have "\<dots> \<le> of_int (2 ^ 53) / 2"
      using \<open>(2::rat) \<le> 2 ^ k\<close> by (intro divide_left_mono) simp_all
    also have "\<dots> = of_int (2 ^ 52)" by simp
    finally have "N \<le> 2 ^ 52" by (simp only: of_int_le_iff)
    then have N53: "N < 2 ^ 53" by simp
    have "(of_int N :: rat) \<le> of_int (2 ^ 53)" using N53 by (simp only: of_int_le_iff)
    also have "(of_int (2 ^ 53) :: rat) < 2 ^ 1024" by simp
    finally have Nfin: "(of_int N :: rat) < 2 ^ 1024" .
    have "(of_int N :: rat) = of_int N * 2 ^ (0::nat)" by simp
    from round_double_exact[OF _ N53 this Nfin] N1 show ?thesis by (simp add: N_def)
  qed
qed

lemma round_double_zero [simp]: "round_double 0 = Finite 0"
  by (simp add: round_double_def)

lemma round_double_small_int:
  assumes "0 < n" and "n < 2 ^ 53"
  shows "round_double (of_int n) = Finite (of_int n)"
proof -
  have x: "(of_int n :: rat) = of_int n * 2 ^ (0::nat)" by simp
  have "(of_int n :: rat) < of_int (2 ^ 53)" using assms(2) by (simp only: of_int_less_iff)
  also have "(of_int (2 ^ 53) :: rat) < 2 ^ 1024" by simp
  finally have "(of_int n :: rat) < 2 ^ 1024" .
  with assms x show ?thesis by (rule round_double_exact)
qed

lemma true_divide_exact:
  assumes "0 < b" and "0 < q" and "q < 2 ^ 53" and "a = q * b"
  shows "true_divide a b = Inr (Finite (of_int q))"
  using assms round_double_small_int[of q] by (simp add: true_divide_def)

text \<open>
  The double nearest to 0.003, the default \<open>max_slippage\<close>, is
  \<open>3458764513820541 / 2^60\<close>; with it \<open>500.0 * (1 + 0.003)\<close> is
  \<open>8822481301274623 / 2^44\<close>, that is 501.49999999999994.
\<close>

lemma round_double_0003:
  "round_double (3 / 1000) = Finite (3458764513820541 / 1152921504606846976)"
  by (subst round_double_pos_eval[where e = "- 9"]) (simp_all add: round_half_even_def Let_def)

lemma seed_factor_0003:
  "float_mul (Finite 500) (float_add (Finite 1) (Finite (3458764513820541 / 1152921504606846976)))
     = Finite (8822481301274623 / 17592186044416)"
proof -
  have "float_add (Finite 1) (Finite (3458764513820541 / 1152921504606846976))
          = Finite (4517110426252607 / 4503599627370496)"
    unfolding float_add.simps
    by (subst round_double_pos_eval[where e = 0]) (simp_all add: round_half_even_def Let_def)
  moreover have "float_mul (Finite 500) (Finite (4517110426252607 / 4503599627370496))
          = Finite (8822481301274623 / 17592186044416)"
    unfolding float_mul.simps
    by (subst round_double_pos_eval[where e = 8]) (simp_all add: round_half_even_def Let_def)
  ultimately show ?thesis by simp
qed

section \<open>The rescaling step\<close>

lemma rescale_exact:
  assumes "0 \<le> amount_in * debt_shortfall" and "amount_in * debt_shortfall < 2 ^ 53"
    and "0 < amount_out"
  shows "rescale amount_in debt_shortfall amount_out
           = Inr ((amount_in * debt_shortfall) div amount_out)"
proof -
  from true_divide_floor[OF assms]
  obtain v where "true_divide (amount_in * debt_shortfall) amount_out = Inr (Finite v)"
    and "0 \<le> v" and "\<lfloor>v\<rfloor> = (amount_in * debt_shortfall) div amount_out"
    by blast
  then show ?thesis by (simp add: rescale_def)
qed

text \<open>
  From an amount that is a float value the rounding cannot fall below it: rounding is
  monotone and leaves float values unchanged. Every result of \<open>int\<close> on a float is
  such an amount, so within the loop only the seed can be rounded downwards.
\<close>

lemma rescale_of_float_amount:
  assumes a0: "0 \<le> amount_in" and rep: "exactly_representable amount_in"
    and ao0: "0 < amount_out" and short: "amount_out < debt_shortfall"
  shows "case rescale amount_in debt_shortfall amount_out of
           Inl e \<Rightarrow> e = OverflowError
         | Inr amount_in' \<Rightarrow> amount_in \<le> amount_in' \<and> exactly_representable amount_in'"
proof (cases "amount_in = 0")
  case True
  then show ?thesis using ao0 by (simp add: rescale_def true_divide_def exactly_representable_def)
next
  case False
  with a0 have a1: "1 \<le> amount_in" by simp
  define y :: rat where "y = of_int (amount_in * debt_shortfall) / of_int amount_out"
  have "amount_in * amount_out \<le> amount_in * debt_shortfall"
    using a0 short by (intro mult_left_mono) simp_all
  then have "(of_int (amount_in * amount_out) :: rat) \<le> of_int (amount_in * debt_shortfall)"
    by (simp only: of_int_le_iff)
  then have le: "of_int amount_in \<le> y" using ao0 by (simp add: y_def field_simps)
  have y1: "1 \<le> y" using a1 le by (simp add: order_trans[of 1 "of_int amount_in" y])
  have rep': "round_double (of_int amount_in) = Finite (of_int amount_in)"
    using rep by (simp add: exactly_representable_def)
  from round_double_lower[OF a1 rep' le]
  show ?thesis
  proof
    assume "round_double y = Infinite False"
    then show ?thesis using ao0 by (simp add: rescale_def true_divide_def y_def)
  next
    assume "\<exists>v. round_double y = Finite v \<and> of_int amount_in \<le> v"
    then obtain v where rd: "round_double y = Finite v" and v: "of_int amount_in \<le> v" by blast
    have v0: "0 \<le> v" using v a0 by (simp add: order_trans[of 0 "of_int amount_in" v])
    have r: "rescale amount_in debt_shortfall amount_out = Inr \<lfloor>v\<rfloor>"
      using ao0 rd v0 by (simp add: rescale_def true_divide_def y_def)
    have "amount_in \<le> \<lfloor>v\<rfloor>" using v by (simp add: le_floor_iff)
    moreover have "exactly_representable \<lfloor>v\<rfloor>"
      unfolding exactly_representable_def using y1 rd by (rule floor_round_double_representable)
    ultimately show ?thesis by (simp add: r)
  qed
qed

section \<open>The loop\<close>

text \<open>The loop returns its state at once when the output covers the shortfall.\<close>

lemma quote_loop_exit:
  assumes "\<not> amount_out < debt_shortfall"
  shows "quote_loop w zap collateral max_slippage debt_shortfall tr amount_in amount_out path_id
           = Some (Inr (path_id, amount_in, amount_out), tr)"
  using assms by (subst quote_loop.simps) simp

text \<open>
  What a finished run of the loop guarantees: the trace only grows, and a successful
  result carries an output amount that covers the shortfall and is the answer to the
  last quote request (or the loop never ran and the state is returned as it was).
\<close>

lemma quote_loop_result:
  assumes run: "quote_loop w zap collateral max_slippage debt_shortfall tr amount_in amount_out path_id
             = Some y"
  shows "(\<exists>suffix. snd y = tr @ suffix) \<and>
         (\<forall>path_id' amount_in' amount_out'. fst y = Inr (path_id', amount_in', amount_out') \<longrightarrow>
            debt_shortfall \<le> amount_out' \<and>
            ((snd y = tr \<and> amount_in' = amount_in \<and> amount_out' = amount_out \<and> path_id' = path_id) \<or>
             (\<exists>tr0. snd y = tr0 @ [GetQuote (chain_id w) zap collateral MONEY amount_in' max_slippage
                                    (Inr (amount_out', path_id'))])))"
proof -
  let ?P = "\<lambda>(w::world) zap collateral max_slippage debt_shortfall tr amount_in amount_out path_id
         (y :: (error + string \<times> int \<times> int) \<times> call list).
         (\<exists>suffix. snd y = tr @ suffix) \<and>
         (\<forall>path_id' amount_in' amount_out'. fst y = Inr (path_id', amount_in', amount_out') \<longrightarrow>
            debt_shortfall \<le> amount_out' \<and>
            ((snd y = tr \<and> amount_in' = amount_in \<and> amount_out' = amount_out \<and> path_id' = path_id) \<or>
             (\<exists>tr0. snd y = tr0 @ [GetQuote (chain_id w) zap collateral MONEY amount_in' max_slippage
                                    (Inr (amount_out', path_id'))])))"
  have "?P w zap collateral max_slippage debt_shortfall tr amount_in amount_out path_id y"
  proof (rule quote_loop.raw_induct[where P = ?P, OF _ run])
    fix loop and w :: world and zap collateral max_slippage debt_shortfall tr amount_in amount_out
      path_id and y :: "(error + string \<times> int \<times> int) \<times> call list"
    assume IH: "\<And>w1 zap1 collateral1 max_slippage1 debt_shortfall1 tr1 amount_in1 amount_out1
        path_id1 y1.
        loop w1 zap1 collateral1 max_slippage1 debt_shortfall1 tr1 amount_in1 amount_out1 path_id1
          = Some y1
        \<Longrightarrow> ?P w1 zap1 collateral1 max_slippage1 debt_shortfall1 tr1 amount_in1 amount_out1
              path_id1 y1"
    assume body: "(if amount_out < debt_shortfall then
        (case rescale amount_in debt_shortfall amount_out of
           Inl e \<Rightarrow> Some (Inl e, tr)
         | Inr amount_in' \<Rightarrow>
            (case odos_get_quote w tr (chain_id w) zap collateral MONEY amount_in' max_slippage of
               (Inl e, tr') \<Rightarrow> Some (Inl e, tr')
             | (Inr (amount_out', path_id'), tr') \<Rightarrow>
                 loop w zap collateral max_slippage debt_shortfall tr'
                   amount_in' amount_out' path_id'))
      else Some (Inr (path_id, amount_in, amount_out), tr)) = Some y"
    show "?P w zap collateral max_slippage debt_shortfall tr amount_in amount_out path_id y"
  proof (cases "amount_out < debt_shortfall")
    case False
    with body have y: "y = (Inr (path_id, amount_in, amount_out), tr)" by simp
    have "snd y = tr @ []" by (simp add: y)
    then have "\<exists>suffix. snd y = tr @ suffix" ..
    then show ?thesis using False by (simp add: y)
  next
    case True
    note lt = this
    show ?thesis
    proof (cases "rescale amount_in debt_shortfall amount_out")
      case (Inl e)
      with lt body have y: "y = (Inl e, tr)" by simp
      have "snd y = tr @ []" by (simp add: y)
      then have "\<exists>suffix. snd y = tr @ suffix" ..
      then show ?thesis by (simp add: y)
    next
      case (Inr a')
      note resc = this
      define r where "r = get_quote w tr (chain_id w) zap collateral MONEY a' max_slippage"
      define tr1 where "tr1 = tr @ [GetQuote (chain_id w) zap collateral MONEY a' max_slippage r]"
      have og: "odos_get_quote w tr (chain_id w) zap collateral MONEY a' max_slippage = (r, tr1)"
        by (simp add: odos_get_quote_def r_def tr1_def Let_def)
      show ?thesis
      proof (cases r)
        case (Inl e)
        with lt resc og body have y: "y = (Inl e, tr1)" by simp
        have "snd y = tr @ [GetQuote (chain_id w) zap collateral MONEY a' max_slippage r]"
          by (simp add: y tr1_def)
        then have "\<exists>suffix. snd y = tr @ suffix" ..
        then show ?thesis by (simp add: y)
      next
        case (Inr ap)
        obtain ao' pid' where ap: "ap = (ao', pid')" by (cases ap)
        from lt resc og Inr ap body
        have rec: "loop w zap collateral max_slippage debt_shortfall tr1 a' ao' pid' = Some y"
          by simp
        note ih = IH[OF rec]
        from ih have ih1: "\<exists>suffix. snd y = tr1 @ suffix" by (rule conjunct1)
        from ih have ih2: "\<forall>path_id' amount_in' amount_out'. fst y = Inr (path_id', amount_in', amount_out') \<longrightarrow>
            debt_shortfall \<le> amount_out' \<and>
            ((snd y = tr1 \<and> amount_in' = a' \<and> amount_out' = ao' \<and> path_id' = pid') \<or>
             (\<exists>tr0. snd y = tr0 @ [GetQuote (chain_id w) zap collateral MONEY amount_in' max_slippage
                                    (Inr (amount_out', path_id'))]))"
          by (rule conjunct2)
        from ih1 obtain suffix where "snd y = tr1 @ suffix" ..
        then have "snd y = tr @ (GetQuote (chain_id w) zap collateral MONEY a' max_slippage r # suffix)"
          by (simp add: tr1_def)
        then have A: "\<exists>suffix. snd y = tr @ suffix" ..
        have tr1_eq: "tr1 = tr @ [GetQuote (chain_id w) zap collateral MONEY a' max_slippage
                                    (Inr (ao', pid'))]"
          by (simp add: tr1_def Inr ap)
        have B: "debt_shortfall \<le> amount_out'' \<and>
                 (\<exists>tr0. snd y = tr0 @ [GetQuote (chain_id w) zap collateral MONEY amount_in'' max_slippage
                                    (Inr (amount_out'', path_id''))])"
          if eq: "fst y = Inr (path_id'', amount_in'', amount_out'')" for path_id'' amount_in'' amount_out''
        proof -
          from ih2 eq have le: "debt_shortfall \<le> amount_out''"
            and alt: "(snd y = tr1 \<and> amount_in'' = a' \<and> amount_out'' = ao' \<and> path_id'' = pid') \<or>
              (\<exists>tr0. snd y = tr0 @ [GetQuote (chain_id w) zap collateral MONEY amount_in'' max_slippage
                                    (Inr (amount_out'', path_id''))])"
            by blast+
          from alt have "\<exists>tr0. snd y = tr0 @ [GetQuote (chain_id w) zap collateral MONEY amount_in'' max_slippage
                                    (Inr (amount_out'', path_id''))]"
          proof
            assume "snd y = tr1 \<and> amount_in'' = a' \<and> amount_out'' = ao' \<and> path_id'' = pid'"
            then have "snd y = tr @ [GetQuote (chain_id w) zap collateral MONEY amount_in'' max_slippage
                                    (Inr (amount_out'', path_id''))]"
              using tr1_eq by simp
            then show ?thesis ..
          qed
          with le show ?thesis ..
        qed
        from A B show ?thesis by blast
      qed
    qed
  qed
  qed
  then show ?thesis .
qed

text \<open>
  A state from which the loop cannot leave: the rescaled amount is the old one and the
  service keeps answering the same insufficient amount.
\<close>

lemma quote_loop_stuck:
  assumes same: "rescale a ds ao = Inr a" and short: "ao < ds"
    and quote: "\<And>tr. get_quote w tr (chain_id w) zap coll MONEY a ms = Inr (ao, pid)"
  shows "quote_loop w zap coll ms ds tr a ao pid = None"
proof (rule ccontr)
  assume "quote_loop w zap coll ms ds tr a ao pid \<noteq> None"
  then obtain y where run: "quote_loop w zap coll ms ds tr a ao pid = Some y" by blast
  let ?P = "\<lambda>(w1::world) zap1 coll1 ms1 ds1 (tr1 :: call list) a1 ao1 pid1
              (y1 :: (error + string \<times> int \<times> int) \<times> call list).
              \<not> (w1 = w \<and> zap1 = zap \<and> coll1 = coll \<and> ms1 = ms \<and> ds1 = ds \<and> a1 = a \<and> ao1 = ao
                  \<and> pid1 = pid)"
  have "?P w zap coll ms ds tr a ao pid y"
  proof (rule quote_loop.raw_induct[where P = ?P, OF _ run])
    fix loop and w1 :: world and zap1 coll1 ms1 ds1 tr1 a1 ao1 pid1
      and y1 :: "(error + string \<times> int \<times> int) \<times> call list"
    assume IH: "\<And>w2 zap2 coll2 ms2 ds2 tr2 a2 ao2 pid2 y2.
        loop w2 zap2 coll2 ms2 ds2 tr2 a2 ao2 pid2 = Some y2
        \<Longrightarrow> ?P w2 zap2 coll2 ms2 ds2 tr2 a2 ao2 pid2 y2"
    assume body: "(if ao1 < ds1 then
        (case rescale a1 ds1 ao1 of
           Inl e \<Rightarrow> Some (Inl e, tr1)
         | Inr amount_in' \<Rightarrow>
            (case odos_get_quote w1 tr1 (chain_id w1) zap1 coll1 MONEY amount_in' ms1 of
               (Inl e, tr') \<Rightarrow> Some (Inl e, tr')
             | (Inr (amount_out', path_id'), tr') \<Rightarrow>
                 loop w1 zap1 coll1 ms1 ds1 tr' amount_in' amount_out' path_id'))
      else Some (Inr (pid1, a1, ao1), tr1)) = Some y1"
    show "?P w1 zap1 coll1 ms1 ds1 tr1 a1 ao1 pid1 y1"
    proof
      assume eq: "w1 = w \<and> zap1 = zap \<and> coll1 = coll \<and> ms1 = ms \<and> ds1 = ds \<and> a1 = a \<and> ao1 = ao
                  \<and> pid1 = pid"
      with body same short quote
      have "loop w zap coll ms ds (tr1 @ [GetQuote (chain_id w) zap coll MONEY a ms (Inr (ao, pid))])
              a ao pid = Some y1"
        by (auto simp: odos_get_quote_def Let_def)
      from IH[OF this] show False by simp
    qed
  qed
  then show False by simp
qed

section \<open>The close-loan calculator, step by step\<close>

text \<open>The first steps of the calculator on the successful path, and what a successful result implies.\<close>

lemma close_loan_after_first_quote:
  assumes amm: "get_close_loan_amounts w account market = (debt_amm, coll_amm)"
    and ds: "debt_shortfall = - ((if use_account_balance then balanceOf w MONEY account else 0) + debt_amm)"
    and pre: "debt_amm < 0" "0 < coll_amm" "0 < debt_shortfall"
    and td: "true_divide debt_shortfall (get_oracle_price w (get_collateral w market)) = Inr x"
    and ti: "to_int w (float_mul x (float_add (Finite 1) max_slippage))
               (decimals w (get_collateral w market)) = Inr seed"
    and q: "get_quote w [] (chain_id w) zap (get_collateral w market) MONEY seed max_slippage
              = Inr (amount_out, path_id)"
  shows "get_close_loan_routing_data w zap account market use_account_balance max_slippage =
           (case quote_loop w zap (get_collateral w market) max_slippage debt_shortfall
                   [GetQuote (chain_id w) zap (get_collateral w market) MONEY seed max_slippage
                      (Inr (amount_out, path_id))] seed amount_out path_id of
              None \<Rightarrow> None
            | Some (Inl e, tr') \<Rightarrow> Some (Inl e, tr')
            | Some (Inr (path_id', amount_in', amount_out'), tr') \<Rightarrow>
               (case get_route_calldata w tr' zap path_id' of
                  Inl e \<Rightarrow> Some (Inl e, tr' @ [GetRouteCalldata zap path_id' (Inl e)])
                | Inr routing_data \<Rightarrow>
                    Some (Inr (routing_data, amount_in', amount_out'),
                          tr' @ [GetRouteCalldata zap path_id' (Inr routing_data)])))"
  unfolding get_close_loan_routing_data_def Let_def amm prod.case ds[symmetric]
  using pre td ti q
  by (simp add: odos_get_quote_def odos_get_route_calldata_def Let_def
        split: option.splits sum.splits prod.splits)

text \<open>The calculator is its first part followed by the loop and the calldata request.\<close>

lemma close_loan_decompose:
  "get_close_loan_routing_data w zap account market use_account_balance max_slippage =
     (case close_loan_first_quote w zap account market use_account_balance max_slippage of
        (Inl e, tr) \<Rightarrow> Some (Inl e, tr)
      | (Inr (debt_shortfall, amount_in, amount_out, path_id), tr) \<Rightarrow>
         (case quote_loop w zap (get_collateral w market) max_slippage debt_shortfall tr
                 amount_in amount_out path_id of
            None \<Rightarrow> None
          | Some (Inl e, tr') \<Rightarrow> Some (Inl e, tr')
          | Some (Inr (path_id', amount_in', amount_out'), tr') \<Rightarrow>
             (case odos_get_route_calldata w tr' zap path_id' of
                (Inl e, tr'') \<Rightarrow> Some (Inl e, tr'')
              | (Inr routing_data, tr'') \<Rightarrow>
                  Some (Inr (routing_data, amount_in', amount_out'), tr''))))"
  unfolding get_close_loan_routing_data_def close_loan_first_quote_def Let_def
  by (simp split: prod.splits sum.splits)

lemma close_loan_first_quote_seed:
  assumes amm: "get_close_loan_amounts w account market = (debt_amm, coll_amm)"
    and ds: "debt_shortfall = - ((if use_account_balance then balanceOf w MONEY account else 0) + debt_amm)"
    and pre: "debt_amm < 0" "0 < coll_amm" "0 < debt_shortfall"
    and td: "true_divide debt_shortfall (get_oracle_price w (get_collateral w market)) = Inr x"
    and ti: "to_int w (float_mul x (float_add (Finite 1) max_slippage))
               (decimals w (get_collateral w market)) = Inr seed"
    and r: "r = get_quote w [] (chain_id w) zap (get_collateral w market) MONEY seed max_slippage"
  shows "close_loan_first_quote w zap account market use_account_balance max_slippage =
           ((case r of
               Inl e \<Rightarrow> Inl e
             | Inr (amount_out, path_id) \<Rightarrow> Inr (debt_shortfall, seed, amount_out, path_id)),
            [GetQuote (chain_id w) zap (get_collateral w market) MONEY seed max_slippage r])"
  unfolding close_loan_first_quote_def Let_def amm prod.case ds[symmetric]
  using pre td ti
  by (simp add: odos_get_quote_def Let_def r split: sum.splits prod.splits)

text \<open>The ways the calculator stops before the loop.\<close>

lemma close_loan_early_exit:
  assumes amm: "get_close_loan_amounts w account market = (debt_amm, coll_amm)"
    and ds: "debt_shortfall = - ((if use_account_balance then balanceOf w MONEY account else 0) + debt_amm)"
  shows "\<not> debt_amm < 0 \<or> \<not> 0 < coll_amm \<or> \<not> 0 < debt_shortfall \<Longrightarrow>
           get_close_loan_routing_data w zap account market use_account_balance max_slippage
             = Some (Inl AssertionError, [])"
    and "debt_amm < 0 \<Longrightarrow> 0 < coll_amm \<Longrightarrow> 0 < debt_shortfall \<Longrightarrow>
         true_divide debt_shortfall (get_oracle_price w (get_collateral w market)) = Inl e \<Longrightarrow>
           get_close_loan_routing_data w zap account market use_account_balance max_slippage
             = Some (Inl e, [])"
    and "debt_amm < 0 \<Longrightarrow> 0 < coll_amm \<Longrightarrow> 0 < debt_shortfall \<Longrightarrow>
         true_divide debt_shortfall (get_oracle_price w (get_collateral w market)) = Inr x \<Longrightarrow>
         to_int w (float_mul x (float_add (Finite 1) max_slippage))
               (decimals w (get_collateral w market)) = Inl e \<Longrightarrow>
           get_close_loan_routing_data w zap account market use_account_balance max_slippage
             = Some (Inl e, [])"
    and "debt_amm < 0 \<Longrightarrow> 0 < coll_amm \<Longrightarrow> 0 < debt_shortfall \<Longrightarrow>
         true_divide debt_shortfall (get_oracle_price w (get_collateral w market)) = Inr x \<Longrightarrow>
         to_int w (float_mul x (float_add (Finite 1) max_slippage))
               (decimals w (get_collateral w market)) = Inr seed \<Longrightarrow>
         get_quote w [] (chain_id w) zap (get_collateral w market) MONEY seed max_slippage = Inl e \<Longrightarrow>
           get_close_loan_routing_data w zap account market use_account_balance max_slippage
             = Some (Inl e, [GetQuote (chain_id w) zap (get_collateral w market) MONEY seed
                               max_slippage (Inl e)])"
  unfolding get_close_loan_routing_data_def Let_def amm prod.case ds[symmetric]
  by (auto simp: odos_get_quote_def Let_def)

section \<open>Runs against the fixed snapshot\<close>

lemma stub_quote_loop_step:
  assumes "amount_out < debt_shortfall"
    and "rescale amount_in debt_shortfall amount_out = Inr amount_in'"
  shows "quote_loop (stub_world amounts balance price dec f) zap collateral max_slippage
           debt_shortfall tr amount_in amount_out path_id
         = quote_loop (stub_world amounts balance price dec f) zap collateral max_slippage
             debt_shortfall
             (tr @ [GetQuote 1 zap collateral MONEY amount_in' max_slippage
                      (Inr (f amount_in', ''path''))])
             amount_in' (f amount_in') ''path''"
proof -
  let ?W = "stub_world amounts balance price dec f"
  have gq: "\<And>tr c s i out a m. get_quote ?W tr c s i out a m = Inr (f a, ''path'')"
    and ci: "chain_id ?W = 1"
    by (simp_all add: stub_world_def)
  show ?thesis
    using assms by (subst quote_loop.simps) (simp add: odos_get_quote_def Let_def gq ci)
qed

lemma stub_close_loan:
  assumes pre: "debt_amm < 0" "0 < coll_amm" "0 < - (balance + debt_amm)"
    and td: "true_divide (- (balance + debt_amm)) price = Inr x"
    and ti: "ceil_to_token_precision (float_mul x (float_add (Finite 1) max_slippage)) dec
               = Inr seed"
  shows "get_close_loan_routing_data (stub_world (debt_amm, coll_amm) balance price dec f)
           zap account market True max_slippage =
           (case quote_loop (stub_world (debt_amm, coll_amm) balance price dec f) zap ''collateral''
                   max_slippage (- (balance + debt_amm))
                   [GetQuote 1 zap ''collateral'' MONEY seed max_slippage (Inr (f seed, ''path''))]
                   seed (f seed) ''path'' of
              None \<Rightarrow> None
            | Some (Inl e, tr') \<Rightarrow> Some (Inl e, tr')
            | Some (Inr (path_id', amount_in', amount_out'), tr') \<Rightarrow>
                Some (Inr (''calldata:'' @ path_id', amount_in', amount_out'),
                      tr' @ [GetRouteCalldata zap path_id' (Inr (''calldata:'' @ path_id'))]))"
proof -
  let ?W = "stub_world (debt_amm, coll_amm) balance price dec f"
  have amm: "get_close_loan_amounts ?W account market = (debt_amm, coll_amm)"
    and ds: "- (balance + debt_amm) = - ((if True then balanceOf ?W MONEY account else 0) + debt_amm)"
    and td': "true_divide (- (balance + debt_amm)) (get_oracle_price ?W (get_collateral ?W market))
                = Inr x"
    and ti': "to_int ?W (float_mul x (float_add (Finite 1) max_slippage))
                (decimals ?W (get_collateral ?W market)) = Inr seed"
    and q: "get_quote ?W [] (chain_id ?W) zap (get_collateral ?W market) MONEY seed max_slippage
              = Inr (f seed, ''path'')"
    using td ti by (simp_all add: stub_world_def)
  have c: "get_collateral ?W market = ''collateral''" and i: "chain_id ?W = 1"
    and rc: "\<And>tr p. get_route_calldata ?W tr zap p = Inr (''calldata:'' @ p)"
    by (simp_all add: stub_world_def)
  show ?thesis
    unfolding close_loan_after_first_quote[OF amm ds pre td' ti' q] c i rc
    by (simp split: option.splits sum.splits prod.splits)
qed

lemma seed_500:
  "true_divide (- (0 + - 1000000)) 2000 = Inr (Finite 500)"
  "ceil_to_token_precision (float_mul (Finite 500) (float_add (Finite 1) (Finite 0))) 0 = Inr 500"
proof -
  show "true_divide (- (0 + - 1000000)) 2000 = Inr (Finite 500)"
    using true_divide_exact[of 2000 500 1000000] by simp
  have "round_double 1 = Finite 1" using round_double_small_int[of 1] by simp
  moreover have "round_double 500 = Finite 500" using round_double_small_int[of 500] by simp
  ultimately
  show "ceil_to_token_precision (float_mul (Finite 500) (float_add (Finite 1) (Finite 0))) 0 = Inr 500"
    by simp
qed

lemma run_one_iteration:
  "get_close_loan_routing_data (stub_world (- 1000000, 1) 0 2000 0 (\<lambda>x. 1600 * x))
      ''zap'' ''account'' ''market'' True (Finite 0)
   = Some (Inr (''calldata:path'', 625, 1000000),
           [GetQuote 1 ''zap'' ''collateral'' MONEY 500 (Finite 0) (Inr (800000, ''path'')),
            GetQuote 1 ''zap'' ''collateral'' MONEY 625 (Finite 0) (Inr (1000000, ''path'')),
            GetRouteCalldata ''zap'' ''path'' (Inr ''calldata:path'')])"
proof -
  have r: "rescale 500 1000000 800000 = Inr 625" by (simp add: rescale_exact)
  show ?thesis
    by (simp add: stub_close_loan[OF _ _ _ seed_500] stub_quote_loop_step[OF _ r]
          quote_loop_exit)
qed

lemma seed_502:
  "ceil_to_token_precision
     (float_mul (Finite 500)
        (float_add (Finite 1) (Finite (3458764513820541 / 1152921504606846976)))) 0 = Inr 502"
  "ceil_to_token_precision
     (float_mul (Finite 500)
        (float_add (Finite 1) (Finite (3458764513820541 / 1152921504606846976)))) 18
     = Inr 501499999999999943157"
  unfolding seed_factor_0003 by simp_all

lemma run_18_decimals:
  "get_close_loan_routing_data (stub_world (- 1000000, 1) 0 2000 18 (\<lambda>x. 1000000))
      ''zap'' ''account'' ''market'' True (Finite (3458764513820541 / 1152921504606846976))
   = Some (Inr (''calldata:path'', 501499999999999943157, 1000000),
           [GetQuote 1 ''zap'' ''collateral'' MONEY 501499999999999943157
              (Finite (3458764513820541 / 1152921504606846976)) (Inr (1000000, ''path'')),
            GetRouteCalldata ''zap'' ''path'' (Inr ''calldata:path'')])"
  by (simp add: stub_close_loan[OF _ _ _ seed_500(1) seed_502(2)] quote_loop_exit)

section \<open>Claims about the single-quote calculators\<close>

text \<open>
  C8. The increase-loan calculator returns, as total collateral, the account's existing
  collateral plus the caller-added collateral plus the output of the quote, and the
  health it returns is the market's projection for the account with the delta
  (caller-added collateral plus quote output, added debt) and band count 0.
\<close>

theorem increase_loan_result:
  assumes q: "get_quote w [] (chain_id w) zap MONEY (get_collateral w market) debt_amount max_slippage
             = Inr (coll_in, path_id)"
    and c: "get_route_calldata w
           [GetQuote (chain_id w) zap MONEY (get_collateral w market) debt_amount max_slippage
              (Inr (coll_in, path_id))] zap path_id = Inr routing_data"
  shows "get_increase_loan_routing_data w zap account market coll_amount debt_amount max_slippage
           = (Inr (routing_data,
                   fst (user_state w market account) + coll_amount + coll_in,
                   pending_account_state_calculator w market account
                     (coll_amount + coll_in) debt_amount 0),
              [GetQuote (chain_id w) zap MONEY (get_collateral w market) debt_amount max_slippage
                 (Inr (coll_in, path_id)),
               GetRouteCalldata zap path_id (Inr routing_data)])"
  using q c
  by (simp add: get_increase_loan_routing_data_def odos_get_quote_def
        odos_get_route_calldata_def Let_def)

theorem increase_loan_result_witness:
  "get_increase_loan_routing_data (stub_world (0, 0) 0 2000 18 (\<lambda>x. 450)) ''zap'' ''account''
      ''market'' 0 1000 (Finite 0)
     = (Inr (''calldata:path'', 5450, - 550),
        [GetQuote 1 ''zap'' MONEY ''collateral'' 1000 (Finite 0) (Inr (450, ''path'')),
         GetRouteCalldata ''zap'' ''path'' (Inr ''calldata:path'')])"
  using increase_loan_result [of "stub_world (0, 0) 0 2000 18 (\<lambda>x. 450)" "''zap''" "''market''"
      1000 "Finite 0" 450 "''path''" "''calldata:path''" "''account''" 0]
  by (simp add: stub_world_def)

text \<open>
  C9. The decrease-loan calculator sends exactly one quote request, for the whole
  withdrawn collateral amount from the collateral token into the stable token; it
  returns the quoted output unchanged as the expected repayment, and the health is the
  market's projection with the deltas minus the withdrawn collateral and minus the
  quoted output, band count 0.
\<close>

theorem decrease_loan_result:
  assumes r: "r = get_quote w [] (chain_id w) zap (get_collateral w market) MONEY coll_amount
                    max_slippage"
    and quote: "quote = GetQuote (chain_id w) zap (get_collateral w market) MONEY coll_amount
                          max_slippage r"
    and res: "res = get_decrease_loan_routing_data w zap account market coll_amount max_slippage"
  shows "filter is_quote (snd res) = [quote] \<and>
         (\<forall>debt_in path_id routing_data.
            r = Inr (debt_in, path_id) \<longrightarrow>
            get_route_calldata w [quote] zap path_id = Inr routing_data \<longrightarrow>
            fst res = Inr (routing_data, debt_in,
                           pending_account_state_calculator w market account
                             (- coll_amount) (- debt_in) 0))"
proof (cases r)
  case (Inl e)
  then have gq: "get_quote w [] (chain_id w) zap (get_collateral w market) MONEY coll_amount
                   max_slippage = Inl e" using r by simp
  show ?thesis unfolding res quote
    by (simp add: get_decrease_loan_routing_data_def odos_get_quote_def Let_def gq Inl)
next
  case (Inr p)
  obtain debt_in path_id where p: "p = (debt_in, path_id)" by (cases p)
  from Inr p have gq: "get_quote w [] (chain_id w) zap (get_collateral w market) MONEY coll_amount
                   max_slippage = Inr (debt_in, path_id)" using r by simp
  show ?thesis unfolding res quote
    by (simp add: get_decrease_loan_routing_data_def odos_get_quote_def
          odos_get_route_calldata_def Let_def gq Inr p split: sum.splits)
qed

theorem decrease_loan_result_witness:
  "filter is_quote (snd (get_decrease_loan_routing_data (stub_world (0, 0) 0 2000 18 (\<lambda>x. 1990 * x))
      ''zap'' ''account'' ''market'' 3 (Finite 0)))
     = [GetQuote 1 ''zap'' ''collateral'' MONEY 3 (Finite 0) (Inr (5970, ''path''))]
   \<and> fst (get_decrease_loan_routing_data (stub_world (0, 0) 0 2000 18 (\<lambda>x. 1990 * x))
      ''zap'' ''account'' ''market'' 3 (Finite 0))
     = Inr (''calldata:path'', 5970, 5967)"
  using decrease_loan_result [of "Inr (5970, ''path'')" "stub_world (0, 0) 0 2000 18 (\<lambda>x. 1990 * x)"
      "''zap''" "''market''" 3 "Finite 0"
      "GetQuote 1 ''zap'' ''collateral'' MONEY 3 (Finite 0) (Inr (5970, ''path''))"
      "get_decrease_loan_routing_data (stub_world (0, 0) 0 2000 18 (\<lambda>x. 1990 * x))
         ''zap'' ''account'' ''market'' 3 (Finite 0)" "''account''"]
  by (simp add: stub_world_def)

text \<open>
  C7. The collateral-converted close-and-recreate calculator asserts that the debt held by
  the AMM is positive and otherwise fails before any request; when it is positive it
  sends exactly one quote request, for the whole AMM debt from the stable token into
  the collateral token, and returns as new collateral the caller-added collateral plus
  the AMM collateral plus the quoted output.
\<close>

theorem coll_converted_close_and_create_result:
  assumes mc: "market_contracts w market = (collateral, amm, rest)"
    and xy: "get_sum_xy w amm account = (debt_amm, coll_amm)"
    and r: "r = get_quote w [] (chain_id w) zap MONEY collateral debt_amm max_slippage"
    and quote: "quote = GetQuote (chain_id w) zap MONEY collateral debt_amm max_slippage r"
    and res: "res = get_coll_converted_close_and_create_routing_data w zap account market
                      coll_amount max_slippage"
  shows "(\<not> 0 < debt_amm \<longrightarrow> res = (Inl AssertionError, [])) \<and>
         (0 < debt_amm \<longrightarrow>
            filter is_quote (snd res) = [quote] \<and>
            (\<forall>received path_id routing_data.
               r = Inr (received, path_id) \<longrightarrow>
               get_route_calldata w [quote] zap path_id = Inr routing_data \<longrightarrow>
               fst res = Inr (routing_data, coll_amount + coll_amm + received)))"
proof (cases "0 < debt_amm")
  case False
  with mc xy res show ?thesis
    by (simp add: get_coll_converted_close_and_create_routing_data_def)
next
  case True
  show ?thesis
  proof (cases r)
    case (Inl e)
    then have gq: "get_quote w [] (chain_id w) zap MONEY collateral debt_amm max_slippage = Inl e"
      using r by simp
    show ?thesis unfolding res quote using True
      by (simp add: get_coll_converted_close_and_create_routing_data_def odos_get_quote_def
            Let_def mc xy gq Inl)
  next
    case (Inr p)
    obtain received path_id where p: "p = (received, path_id)" by (cases p)
    from Inr p have gq: "get_quote w [] (chain_id w) zap MONEY collateral debt_amm max_slippage
                           = Inr (received, path_id)"
      using r by simp
    show ?thesis unfolding res quote using True
      by (simp add: get_coll_converted_close_and_create_routing_data_def odos_get_quote_def
            odos_get_route_calldata_def Let_def mc xy gq Inr p split: sum.splits)
  qed
qed

theorem coll_converted_close_and_create_result_witness:
  "get_coll_converted_close_and_create_routing_data (stub_world (0, 7) 0 2000 18 (\<lambda>x. x div 2000))
      ''zap'' ''account'' ''market'' 5 (Finite 0) = (Inl AssertionError, [])
   \<and> filter is_quote (snd (get_coll_converted_close_and_create_routing_data
        (stub_world (4000, 7) 0 2000 18 (\<lambda>x. x div 2000)) ''zap'' ''account'' ''market'' 5 (Finite 0)))
     = [GetQuote 1 ''zap'' MONEY ''collateral'' 4000 (Finite 0) (Inr (2, ''path''))]
   \<and> fst (get_coll_converted_close_and_create_routing_data
        (stub_world (4000, 7) 0 2000 18 (\<lambda>x. x div 2000)) ''zap'' ''account'' ''market'' 5 (Finite 0))
     = Inr (''calldata:path'', 14)"
proof -
  let ?V = "stub_world (0, 7) 0 2000 18 (\<lambda>x. x div 2000)"
  let ?W = "stub_world (4000, 7) 0 2000 18 (\<lambda>x. x div 2000)"
  let ?q = "GetQuote 1 ''zap'' MONEY ''collateral'' 4000 (Finite 0) (Inr (2, ''path''))"
  have mcV: "market_contracts ?V ''market'' = (''collateral'', ''amm'', ''oracle'')"
    and xyV: "get_sum_xy ?V ''amm'' ''account'' = (0, 7)"
    and mcW: "market_contracts ?W ''market'' = (''collateral'', ''amm'', ''oracle'')"
    and xyW: "get_sum_xy ?W ''amm'' ''account'' = (4000, 7)"
    and rW: "Inr (2, ''path'') = get_quote ?W [] (chain_id ?W) ''zap'' MONEY ''collateral'' 4000 (Finite 0)"
    and qW: "?q = GetQuote (chain_id ?W) ''zap'' MONEY ''collateral'' 4000 (Finite 0) (Inr (2, ''path''))"
    and cW: "get_route_calldata ?W [?q] ''zap'' ''path'' = Inr ''calldata:path''"
    by (simp_all add: stub_world_def)
  from coll_converted_close_and_create_result [where zap = "''zap''" and max_slippage = "Finite 0"
      and coll_amount = 5, OF mcV xyV refl refl refl]
  have A: "get_coll_converted_close_and_create_routing_data ?V ''zap'' ''account'' ''market'' 5
             (Finite 0) = (Inl AssertionError, [])"
    by simp
  from coll_converted_close_and_create_result [where coll_amount = 5, OF mcW xyW rW qW refl] cW
  have B: "filter is_quote (snd (get_coll_converted_close_and_create_routing_data ?W ''zap''
             ''account'' ''market'' 5 (Finite 0))) = [?q]"
    and C: "fst (get_coll_converted_close_and_create_routing_data ?W ''zap''
             ''account'' ''market'' 5 (Finite 0)) = Inr (''calldata:path'', 14)"
    by simp_all
  from A B C show ?thesis by simp
qed

section \<open>Claims about the close-loan calculator\<close>

text \<open>
  C1. Whenever the close-loan calculator returns a result, with
  \<open>debt_shortfall = -(amount + debt_amm)\<close> where \<open>amount\<close> is the account's
  stable-token balance if \<open>use_account_balance\<close> and 0 otherwise: the returned
  \<open>amount_out\<close> is at least \<open>debt_shortfall\<close>; the last quote request of the run
  asked for the returned \<open>amount_in\<close> and was answered with the returned
  \<open>amount_out\<close> and a route identifier; and the returned routing data is the answer
  to the calldata request for that route identifier, the last request of the run.
\<close>

theorem close_loan_result:
  assumes run: "get_close_loan_routing_data w zap account market use_account_balance max_slippage
                  = Some (Inr (routing_data, amount_in, amount_out), tr)"
    and amm: "get_close_loan_amounts w account market = (debt_amm, coll_amm)"
    and ds: "debt_shortfall = - ((if use_account_balance then balanceOf w MONEY account else 0) + debt_amm)"
  shows "debt_shortfall \<le> amount_out \<and>
         (\<exists>tr0 path_id.
            tr = tr0 @ [GetQuote (chain_id w) zap (get_collateral w market) MONEY amount_in
                          max_slippage (Inr (amount_out, path_id)),
                        GetRouteCalldata zap path_id (Inr routing_data)])"
proof -
  let ?c = "get_collateral w market"
  note exits = close_loan_early_exit[OF amm ds, where zap = zap and max_slippage = max_slippage]
  have pre: "debt_amm < 0" "0 < coll_amm" "0 < debt_shortfall"
    using exits(1) run by auto
  obtain x where td: "true_divide debt_shortfall (get_oracle_price w ?c) = Inr x"
    using exits(2)[OF pre] run by (cases "true_divide debt_shortfall (get_oracle_price w ?c)") auto
  obtain seed where ti: "to_int w (float_mul x (float_add (Finite 1) max_slippage)) (decimals w ?c)
                           = Inr seed"
    using exits(3)[OF pre td] run
    by (cases "to_int w (float_mul x (float_add (Finite 1) max_slippage)) (decimals w ?c)") auto
  obtain ao pid where q: "get_quote w [] (chain_id w) zap ?c MONEY seed max_slippage = Inr (ao, pid)"
    using exits(4)[OF pre td ti] run
    by (cases "get_quote w [] (chain_id w) zap ?c MONEY seed max_slippage") auto
  let ?tr1 = "[GetQuote (chain_id w) zap ?c MONEY seed max_slippage (Inr (ao, pid))]"
  note unfold = close_loan_after_first_quote[OF amm ds pre td ti q]
  from run unfold obtain pid' tr' where
    loop: "quote_loop w zap ?c max_slippage debt_shortfall ?tr1 seed ao pid
             = Some (Inr (pid', amount_in, amount_out), tr')"
    and cd: "get_route_calldata w tr' zap pid' = Inr routing_data"
    and tr: "tr = tr' @ [GetRouteCalldata zap pid' (Inr routing_data)]"
    by (auto split: option.splits sum.splits prod.splits)
  from quote_loop_result[OF loop]
  have le: "debt_shortfall \<le> amount_out"
    and alt: "(tr' = ?tr1 \<and> amount_in = seed \<and> amount_out = ao \<and> pid' = pid) \<or>
              (\<exists>tr0. tr' = tr0 @ [GetQuote (chain_id w) zap ?c MONEY amount_in max_slippage
                                     (Inr (amount_out, pid'))])"
    by simp_all
  from alt have "\<exists>tr0. tr' = tr0 @ [GetQuote (chain_id w) zap ?c MONEY amount_in max_slippage
                                     (Inr (amount_out, pid'))]"
  proof
    assume "tr' = ?tr1 \<and> amount_in = seed \<and> amount_out = ao \<and> pid' = pid"
    then have "tr' = [] @ [GetQuote (chain_id w) zap ?c MONEY amount_in max_slippage
                             (Inr (amount_out, pid'))]" by simp
    then show ?thesis ..
  qed
  then obtain tr0 where "tr' = tr0 @ [GetQuote (chain_id w) zap ?c MONEY amount_in max_slippage
                                     (Inr (amount_out, pid'))]" ..
  with tr have "tr = tr0 @ [GetQuote (chain_id w) zap ?c MONEY amount_in max_slippage
                              (Inr (amount_out, pid')),
                            GetRouteCalldata zap pid' (Inr routing_data)]" by simp
  with le show ?thesis by blast
qed

theorem close_loan_result_witness:
  "get_close_loan_routing_data (stub_world (- 1000000, 1) 0 2000 0 (\<lambda>x. 1600 * x))
      ''zap'' ''account'' ''market'' True (Finite 0)
     = Some (Inr (''calldata:path'', 625, 1000000),
           [GetQuote 1 ''zap'' ''collateral'' MONEY 500 (Finite 0) (Inr (800000, ''path'')),
            GetQuote 1 ''zap'' ''collateral'' MONEY 625 (Finite 0) (Inr (1000000, ''path'')),
            GetRouteCalldata ''zap'' ''path'' (Inr ''calldata:path'')])
   \<and> (1000000::int) \<le> 1000000
   \<and> (\<exists>tr0 path_id.
         [GetQuote 1 ''zap'' ''collateral'' MONEY 500 (Finite 0) (Inr (800000, ''path'')),
          GetQuote 1 ''zap'' ''collateral'' MONEY 625 (Finite 0) (Inr (1000000, ''path'')),
          GetRouteCalldata ''zap'' ''path'' (Inr ''calldata:path'')]
         = tr0 @ [GetQuote 1 ''zap'' ''collateral'' MONEY 625 (Finite 0) (Inr (1000000, path_id)),
                  GetRouteCalldata ''zap'' path_id (Inr ''calldata:path'')])"
proof -
  let ?W = "stub_world (- 1000000, 1) 0 2000 0 (\<lambda>x. 1600 * x)"
  have amm: "get_close_loan_amounts ?W ''account'' ''market'' = (- 1000000, 1)"
    and ds: "1000000 = - ((if True then balanceOf ?W MONEY ''account'' else 0) + - 1000000)"
    and c: "get_collateral ?W ''market'' = ''collateral''" and i: "chain_id ?W = 1"
    by (simp_all add: stub_world_def)
  from close_loan_result[OF run_one_iteration amm ds] run_one_iteration
  show ?thesis unfolding c i by simp
qed

text \<open>
  C4. When the first quote already answers an output of at least the debt shortfall, the
  loop body does not run: the trace holds one quote request, for the seed amount,
  followed by the calldata request, and the seed amount and the first quote's output
  are returned (with the routing data when the calldata request succeeds).
\<close>

theorem close_loan_first_quote_sufficient:
  assumes amm: "get_close_loan_amounts w account market = (debt_amm, coll_amm)"
    and ds: "debt_shortfall = - ((if use_account_balance then balanceOf w MONEY account else 0) + debt_amm)"
    and pre: "debt_amm < 0" "0 < coll_amm" "0 < debt_shortfall"
    and td: "true_divide debt_shortfall (get_oracle_price w (get_collateral w market)) = Inr x"
    and ti: "to_int w (float_mul x (float_add (Finite 1) max_slippage))
               (decimals w (get_collateral w market)) = Inr seed"
    and q: "get_quote w [] (chain_id w) zap (get_collateral w market) MONEY seed max_slippage
              = Inr (amount_out, path_id)"
    and first: "first_quote = GetQuote (chain_id w) zap (get_collateral w market) MONEY seed
                                max_slippage (Inr (amount_out, path_id))"
    and enough: "debt_shortfall \<le> amount_out"
  shows "get_close_loan_routing_data w zap account market use_account_balance max_slippage =
           (case get_route_calldata w [first_quote] zap path_id of
              Inl e \<Rightarrow> Some (Inl e, [first_quote, GetRouteCalldata zap path_id (Inl e)])
            | Inr routing_data \<Rightarrow>
                Some (Inr (routing_data, seed, amount_out),
                      [first_quote, GetRouteCalldata zap path_id (Inr routing_data)]))"
proof -
  have "\<not> amount_out < debt_shortfall" using enough by simp
  then have loop: "quote_loop w zap (get_collateral w market) max_slippage debt_shortfall
                     [first_quote] seed amount_out path_id
                   = Some (Inr (path_id, seed, amount_out), [first_quote])"
    by (rule quote_loop_exit)
  show ?thesis
    unfolding close_loan_after_first_quote[OF amm ds pre td ti q] first[symmetric] loop
    by (simp split: sum.splits)
qed

theorem close_loan_first_quote_sufficient_witness:
  "get_close_loan_routing_data (stub_world (- 1000000, 1) 0 2000 0 (\<lambda>x. 2000 * x))
      ''zap'' ''account'' ''market'' True (Finite (3458764513820541 / 1152921504606846976))
   = Some (Inr (''calldata:path'', 502, 1004000),
           [GetQuote 1 ''zap'' ''collateral'' MONEY 502
              (Finite (3458764513820541 / 1152921504606846976)) (Inr (1004000, ''path'')),
            GetRouteCalldata ''zap'' ''path'' (Inr ''calldata:path'')])"
proof -
  let ?W = "stub_world (- 1000000, 1) 0 2000 0 (\<lambda>x. 2000 * x)"
  let ?ms = "Finite (3458764513820541 / 1152921504606846976)"
  let ?q = "GetQuote 1 ''zap'' ''collateral'' MONEY 502 ?ms (Inr (1004000, ''path''))"
  have amm: "get_close_loan_amounts ?W ''account'' ''market'' = (- 1000000, 1)"
    and ds: "1000000 = - ((if True then balanceOf ?W MONEY ''account'' else 0) + - 1000000)"
    and td: "true_divide 1000000 (get_oracle_price ?W (get_collateral ?W ''market''))
               = Inr (Finite 500)"
    and ti: "to_int ?W (float_mul (Finite 500) (float_add (Finite 1) ?ms))
               (decimals ?W (get_collateral ?W ''market'')) = Inr 502"
    and q: "get_quote ?W [] (chain_id ?W) ''zap'' (get_collateral ?W ''market'') MONEY 502 ?ms
              = Inr (1004000, ''path'')"
    and first: "?q = GetQuote (chain_id ?W) ''zap'' (get_collateral ?W ''market'') MONEY 502 ?ms
                       (Inr (1004000, ''path''))"
    and cd: "get_route_calldata ?W [?q] ''zap'' ''path'' = Inr ''calldata:path''"
    using seed_500(1) seed_502(1) by (simp_all add: stub_world_def)
  from close_loan_first_quote_sufficient[OF amm ds _ _ _ td ti q first]
  show ?thesis unfolding cd by simp
qed

text \<open>
  C5. When the debt held by the AMM is not negative, or the collateral held by the AMM
  is not positive, or the debt shortfall is not positive, the calculator fails with the
  assertion error and its trace is empty: no quote and no calldata request was sent.
\<close>

theorem close_loan_precondition_failure:
  assumes "get_close_loan_amounts w account market = (debt_amm, coll_amm)"
    and "debt_shortfall = - ((if use_account_balance then balanceOf w MONEY account else 0) + debt_amm)"
    and "0 \<le> debt_amm \<or> coll_amm \<le> 0 \<or> debt_shortfall \<le> 0"
  shows "get_close_loan_routing_data w zap account market use_account_balance max_slippage
           = Some (Inl AssertionError, [])"
  using assms by (auto simp: get_close_loan_routing_data_def Let_def)

theorem close_loan_precondition_failure_witness:
  "get_close_loan_routing_data (stub_world (5, 7) 0 2000 18 (\<lambda>x. x)) ''zap'' ''account'' ''market''
      True (Finite 0) = Some (Inl AssertionError, [])
   \<and> get_close_loan_routing_data (stub_world (- 5, 0) 0 2000 18 (\<lambda>x. x)) ''zap'' ''account''
      ''market'' True (Finite 0) = Some (Inl AssertionError, [])
   \<and> get_close_loan_routing_data (stub_world (- 5, 7) 5 2000 18 (\<lambda>x. x)) ''zap'' ''account''
      ''market'' True (Finite 0) = Some (Inl AssertionError, [])"
proof -
  have a: "get_close_loan_amounts (stub_world (5, 7) 0 2000 18 (\<lambda>x. x)) ''account'' ''market''
             = (5, 7)"
    and b: "get_close_loan_amounts (stub_world (- 5, 0) 0 2000 18 (\<lambda>x. x)) ''account'' ''market''
             = (- 5, 0)"
    and c: "get_close_loan_amounts (stub_world (- 5, 7) 5 2000 18 (\<lambda>x. x)) ''account'' ''market''
             = (- 5, 7)"
    by (simp_all add: stub_world_def)
  from close_loan_precondition_failure[OF a refl, of True "''zap''" "Finite 0"]
    close_loan_precondition_failure[OF b refl, of True "''zap''" "Finite 0"]
    close_loan_precondition_failure[OF c refl, of True "''zap''" "Finite 0"]
  show ?thesis by (simp add: stub_world_def)
qed

text \<open>
  C6, amended. With \<open>to_int\<close> rounding up into the token's precision, the calculator's
  first quote request asks for the seed amount \<open>ceil(x * 10^decimals)\<close>, where \<open>x\<close>
  is the float value of \<open>(debt_shortfall / oracle price) * (1 + max_slippage)\<close>: the
  quotient, the sum and the product are each rounded to a float, so \<open>x\<close> is an
  estimate and not the exact value of the formula. The loop starts from that seed and
  the answer to this request, whether or not it ever returns. For debt shortfall
  1000000, price 2000 and slippage 0.003 the float \<open>x\<close> is 501.49999999999994 and the
  seed is 502 for a token without decimals.
\<close>

theorem close_loan_seed:
  assumes amm: "get_close_loan_amounts w account market = (debt_amm, coll_amm)"
    and ds: "debt_shortfall = - ((if use_account_balance then balanceOf w MONEY account else 0) + debt_amm)"
    and pre: "debt_amm < 0" "0 < coll_amm" "0 < debt_shortfall"
    and td: "true_divide debt_shortfall (get_oracle_price w (get_collateral w market)) = Inr ratio"
    and fm: "float_mul ratio (float_add (Finite 1) max_slippage) = Finite v"
    and seed: "seed = \<lceil>v * 10 powi decimals w (get_collateral w market)\<rceil>"
    and r: "r = get_quote w [] (chain_id w) zap (get_collateral w market) MONEY seed max_slippage"
    and first: "first_quote = GetQuote (chain_id w) zap (get_collateral w market) MONEY seed
                                max_slippage r"
    and w': "w' = w\<lparr>to_int := ceil_to_token_precision\<rparr>"
  shows "close_loan_first_quote w' zap account market use_account_balance max_slippage =
           ((case r of
               Inl e \<Rightarrow> Inl e
             | Inr (amount_out, path_id) \<Rightarrow> Inr (debt_shortfall, seed, amount_out, path_id)),
            [first_quote]) \<and>
         get_close_loan_routing_data w' zap account market use_account_balance max_slippage =
           (case r of
              Inl e \<Rightarrow> Some (Inl e, [first_quote])
            | Inr (amount_out, path_id) \<Rightarrow>
               (case quote_loop w' zap (get_collateral w market) max_slippage debt_shortfall
                       [first_quote] seed amount_out path_id of
                  None \<Rightarrow> None
                | Some (Inl e, tr') \<Rightarrow> Some (Inl e, tr')
                | Some (Inr (path_id', amount_in', amount_out'), tr') \<Rightarrow>
                   (case odos_get_route_calldata w' tr' zap path_id' of
                      (Inl e, tr'') \<Rightarrow> Some (Inl e, tr'')
                    | (Inr routing_data, tr'') \<Rightarrow>
                        Some (Inr (routing_data, amount_in', amount_out'), tr''))))"
proof -
  have amm': "get_close_loan_amounts w' account market = (debt_amm, coll_amm)"
    and ds': "debt_shortfall = - ((if use_account_balance then balanceOf w' MONEY account else 0) + debt_amm)"
    and td': "true_divide debt_shortfall (get_oracle_price w' (get_collateral w' market)) = Inr ratio"
    and ti': "to_int w' (float_mul ratio (float_add (Finite 1) max_slippage))
                (decimals w' (get_collateral w' market)) = Inr seed"
    and r': "r = get_quote w' [] (chain_id w') zap (get_collateral w' market) MONEY seed max_slippage"
    and c': "get_collateral w' market = get_collateral w market" and i': "chain_id w' = chain_id w"
    using amm ds td r by (simp_all add: w' fm seed)
  have A: "close_loan_first_quote w' zap account market use_account_balance max_slippage =
           ((case r of
               Inl e \<Rightarrow> Inl e
             | Inr (amount_out, path_id) \<Rightarrow> Inr (debt_shortfall, seed, amount_out, path_id)),
            [first_quote])"
    unfolding close_loan_first_quote_seed[OF amm' ds' pre td' ti' r'] first c' i' ..
  show ?thesis
    unfolding close_loan_decompose[of w'] A c'
    by (simp add: A split: sum.splits prod.splits)
qed

theorem close_loan_seed_witness:
  "close_loan_first_quote (stub_world (- 1000000, 1) 0 2000 0 (\<lambda>x. 1990 * x))
      ''zap'' ''account'' ''market'' True (Finite (3458764513820541 / 1152921504606846976))
   = (Inr (1000000, 502, 998980, ''path''),
      [GetQuote 1 ''zap'' ''collateral'' MONEY 502
         (Finite (3458764513820541 / 1152921504606846976)) (Inr (998980, ''path''))])
   \<and> (502 :: int) = \<lceil>(8822481301274623 / 17592186044416 :: rat) * 10 powi 0\<rceil>
   \<and> (502 :: int) = \<lceil>(1000000 / 2000 * (1003 / 1000) :: rat)\<rceil>"
proof -
  let ?W = "stub_world (- 1000000, 1) 0 2000 0 (\<lambda>x. 1990 * x)"
  let ?ms = "Finite (3458764513820541 / 1152921504606846976)"
  have amm: "get_close_loan_amounts ?W ''account'' ''market'' = (- 1000000, 1)"
    and ds: "1000000 = - ((if True then balanceOf ?W MONEY ''account'' else 0) + - 1000000)"
    and td: "true_divide 1000000 (get_oracle_price ?W (get_collateral ?W ''market''))
               = Inr (Finite 500)"
    and seed: "502 = \<lceil>(8822481301274623 / 17592186044416 :: rat)
                       * 10 powi decimals ?W (get_collateral ?W ''market'')\<rceil>"
    and w': "?W = ?W\<lparr>to_int := ceil_to_token_precision\<rparr>"
    using seed_500(1) by (simp_all add: stub_world_def)
  have r: "Inr (998980, ''path'')
             = get_quote ?W [] (chain_id ?W) ''zap'' (get_collateral ?W ''market'') MONEY 502 ?ms"
    and c: "get_collateral ?W ''market'' = ''collateral''" and i: "chain_id ?W = 1"
    by (simp_all add: stub_world_def)
  from close_loan_seed[OF amm ds _ _ _ td seed_factor_0003 seed r refl w']
  show ?thesis unfolding c i by simp
qed

text \<open>
  The formula evaluated exactly gives another seed once the precision is fine enough:
  with 18 decimals the calculator asks for 501499999999999943157, while 501.5 scaled
  and rounded up is 501500000000000000000.
\<close>

theorem close_loan_seed_not_exact_counterexample:
  "close_loan_first_quote (stub_world (- 1000000, 1) 0 2000 18 (\<lambda>x. 1990 * x))
      ''zap'' ''account'' ''market'' True (Finite (3458764513820541 / 1152921504606846976))
   = (Inr (1000000, 501499999999999943157, 1990 * 501499999999999943157, ''path''),
      [GetQuote 1 ''zap'' ''collateral'' MONEY 501499999999999943157
         (Finite (3458764513820541 / 1152921504606846976))
         (Inr (1990 * 501499999999999943157, ''path''))])
   \<and> ceil_to_token_precision (Finite (1000000 / 2000 * (1 + 3 / 1000))) 18
       = Inr 501500000000000000000
   \<and> (501499999999999943157 :: int) \<noteq> 501500000000000000000"
proof -
  let ?W = "stub_world (- 1000000, 1) 0 2000 18 (\<lambda>x. 1990 * x)"
  let ?ms = "Finite (3458764513820541 / 1152921504606846976)"
  have amm: "get_close_loan_amounts ?W ''account'' ''market'' = (- 1000000, 1)"
    and ds: "1000000 = - ((if True then balanceOf ?W MONEY ''account'' else 0) + - 1000000)"
    and td: "true_divide 1000000 (get_oracle_price ?W (get_collateral ?W ''market''))
               = Inr (Finite 500)"
    and ti: "to_int ?W (float_mul (Finite 500) (float_add (Finite 1) ?ms))
               (decimals ?W (get_collateral ?W ''market'')) = Inr 501499999999999943157"
    using seed_500(1) seed_502(2) by (simp_all add: stub_world_def)
  have c: "get_collateral ?W ''market'' = ''collateral''" and i: "chain_id ?W = 1"
    and q: "\<And>a. get_quote ?W [] 1 ''zap'' ''collateral'' MONEY a ?ms = Inr (1990 * a, ''path'')"
    by (simp_all add: stub_world_def)
  from close_loan_first_quote_seed[OF amm ds _ _ _ td ti refl, where zap = "''zap''"]
  show ?thesis unfolding c i q by simp
qed

text \<open>
  C2, amended. While the product \<open>amount_in * debt_shortfall\<close> is non-negative and
  below \<open>2^53\<close> and the previous output amount is positive, the next input amount
  \<open>int(amount_in * debt_shortfall / amount_out)\<close> is the exact floor of the quotient
  (truncating division of the exact product); it differs from the quotient rounded to
  the nearest integer exactly when the remainder is at least half the divisor.
\<close>

theorem rescale_truncates:
  assumes "0 \<le> amount_in * debt_shortfall" and "amount_in * debt_shortfall < 2 ^ 53"
    and "0 < amount_out"
  shows "rescale amount_in debt_shortfall amount_out
           = Inr ((amount_in * debt_shortfall) div amount_out) \<and>
         ((amount_in * debt_shortfall) div amount_out
            \<noteq> rescale_rounded amount_in debt_shortfall amount_out
          \<longleftrightarrow> amount_out \<le> 2 * ((amount_in * debt_shortfall) mod amount_out))"
proof -
  define p where "p = amount_in * debt_shortfall"
  define n where "n = p div amount_out"
  define r where "r = p mod amount_out"
  have r0: "0 \<le> r" and rc: "r < amount_out" using assms(3) by (simp_all add: r_def)
  have p: "p = amount_out * n + r" by (simp add: n_def r_def)
  have rounded: "rescale_rounded amount_in debt_shortfall amount_out
                   = (if amount_out \<le> 2 * r then n + 1 else n)"
  proof (cases "amount_out \<le> 2 * r")
    case True
    have "2 * p + amount_out = (2 * amount_out) * (n + 1) + (2 * r - amount_out)"
      by (simp add: p algebra_simps)
    moreover have "0 \<le> 2 * r - amount_out" using True by simp
    moreover have "2 * r - amount_out < 2 * amount_out" using rc r0 by linarith
    ultimately have "(2 * p + amount_out) div (2 * amount_out) = n + 1"
      by (rule int_div_pos_eq)
    then show ?thesis using True by (simp add: rescale_rounded_def p_def)
  next
    case False
    have "2 * p + amount_out = (2 * amount_out) * n + (2 * r + amount_out)"
      by (simp add: p algebra_simps)
    moreover have "0 \<le> 2 * r + amount_out" using r0 assms(3) by simp
    moreover have "2 * r + amount_out < 2 * amount_out" using False by simp
    ultimately have "(2 * p + amount_out) div (2 * amount_out) = n"
      by (rule int_div_pos_eq)
    then show ?thesis using False by (simp add: rescale_rounded_def p_def)
  qed
  have "rescale amount_in debt_shortfall amount_out = Inr n"
    unfolding n_def p_def using assms by (rule rescale_exact)
  then show ?thesis using rounded by (simp add: n_def r_def p_def)
qed

theorem rescale_truncates_witness:
  "rescale 1 7 2 = Inr 3 \<and> rescale_rounded 1 7 2 = 4 \<and> (2::int) \<le> 2 * (7 mod 2)
   \<and> rescale 10 100 3 = Inr 333 \<and> rescale_rounded 10 100 3 = 333 \<and> \<not> (3::int) \<le> 2 * (1000 mod 3)"
  using rescale_truncates[of 1 7 2] rescale_truncates[of 10 100 3]
  by (simp add: rescale_rounded_def)

theorem rescale_not_exact_floor_counterexample:
  "rescale (10 ^ 18) (2000 * 10 ^ 18) (1990 * 10 ^ 18) = Inr 1005025125628140672
   \<and> (10 ^ 18 * (2000 * 10 ^ 18)) div (1990 * 10 ^ 18) = (1005025125628140703 :: int)
   \<and> rescale 1 7 3 = Inr 2 \<and> rescale_rounded 1 7 3 = 2 \<and> \<not> (3::int) dvd 1 * 7
   \<and> rescale 1 7 (- 2) = Inr (- 3) \<and> (1 * 7) div (- 2) = (- 4 :: int)"
proof -
  have "ilog2 (7 / 2) = 1" by (rule ilog2_unique) simp_all
  then have "round_double (- (7 / 2)) = Finite (- (7 / 2))"
    by (simp add: round_double_def Let_def)
  then have neg: "rescale 1 7 (- 2) = Inr (- 3)"
    by (simp add: rescale_def true_divide_def)
  have "round_double (of_int (10 ^ 18 * (2000 * 10 ^ 18)) / of_int (1990 * 10 ^ 18))
          = Finite 1005025125628140672"
    by (subst round_double_pos_eval[where e = 59])
       (simp_all add: round_half_even_def Let_def)
  then have "rescale (10 ^ 18) (2000 * 10 ^ 18) (1990 * 10 ^ 18) = Inr 1005025125628140672"
    by (simp add: rescale_def true_divide_def)
  moreover have "rescale 1 7 3 = Inr 2" by (simp add: rescale_exact)
  ultimately show ?thesis using neg by (simp add: rescale_rounded_def)
qed

text \<open>
  C3. The scenario of the specification: debt shortfall 1000000, oracle price 2000,
  slippage 0.003 and the flat quote function \<open>f x = 1990 * x\<close>, which is monotone,
  positive on positive amounts and reaches the shortfall at 503. The seed is 502 and
  its quote 998980 falls short; the rescaled amount \<open>int(502 * 1000000 / 998980)\<close> is
  502 again, so the loop asks for the same quote forever: the loop and the calculator
  do not return.
\<close>

theorem close_loan_spec_scenario_diverges:
  "mono (\<lambda>x::int. 1990 * x) \<and> (1000000::int) \<le> 1990 * 503
   \<and> quote_loop (stub_world (- 1000000, 1) 0 2000 0 (\<lambda>x. 1990 * x)) zap collateral max_slippage
        1000000 tr 502 (1990 * 502) ''path'' = None
   \<and> get_close_loan_routing_data (stub_world (- 1000000, 1) 0 2000 0 (\<lambda>x. 1990 * x))
        ''zap'' ''account'' ''market'' True (Finite (3458764513820541 / 1152921504606846976)) = None"
proof -
  let ?W = "stub_world (- 1000000, 1) 0 2000 0 (\<lambda>x. 1990 * x)"
  have r: "rescale 502 1000000 998980 = Inr 502" by (simp add: rescale_exact)
  have stuck: "quote_loop ?W zap collateral max_slippage 1000000 tr 502 998980 ''path'' = None"
    for zap collateral max_slippage tr
    by (rule quote_loop_stuck[OF r]) (simp_all add: stub_world_def)
  have "get_close_loan_routing_data ?W ''zap'' ''account'' ''market'' True
          (Finite (3458764513820541 / 1152921504606846976)) = None"
    by (simp add: stub_close_loan[OF _ _ _ seed_500(1) seed_502(1)] stuck)
  moreover have "mono (\<lambda>x::int. 1990 * x)" by (rule monoI) simp
  ultimately show ?thesis using stuck by simp
qed


end
